theory Spec2Isabelle
  imports Complex_Main
begin

section \<open>Data model (src/types/chess.ts)\<close>

datatype PieceType = Pawn | Knight | Bishop | Rook | Queen | King

datatype PieceColor = White | Black

datatype PromotionType = PromoteQueen | PromoteRook | PromoteBishop | PromoteKnight

datatype GameStatus = Active | InCheck | Checkmated | Stalemated | Resigned

text \<open>A \<open>PromotionType\<close> is one of four of the \<open>PieceType\<close> strings.\<close>

fun promotedType :: "PromotionType \<Rightarrow> PieceType" where
  "promotedType PromoteQueen = Queen"
| "promotedType PromoteRook = Rook"
| "promotedType PromoteBishop = Bishop"
| "promotedType PromoteKnight = Knight"

text \<open>Coordinates are JavaScript numbers; the engine only adds and compares them, and they
  are modelled as unbounded integers (offsets make them negative before the bounds test).\<close>

record Position =
  row :: int
  col :: int

record Piece =
  type :: PieceType
  color :: PieceColor
  position :: Position
  hasMoved :: bool

text \<open>The optional booleans of a move are only ever tested for truthiness, so an absent
  flag is \<open>False\<close>.\<close>

record Move =
  "from" :: Position
  to :: Position
  piece :: Piece
  capturedPiece :: "Piece option"
  isEnPassant :: bool
  isCastling :: bool
  promotionType :: "PromotionType option"

type_synonym Board = "Piece option list list"

text \<open>The three status fields carry the suffix \<open>Flag\<close>: the engine has methods of the
  same names.\<close>

record GameState =
  board :: Board
  currentTurn :: PieceColor
  moveHistory :: "Move list"
  capturedPieces :: "Piece list"
  isCheckFlag :: bool
  isCheckmateFlag :: bool
  isStalemateFlag :: bool
  moveCount :: nat
  lastMove :: "Move option"
  isAIThinking :: "bool option"
  status :: "GameStatus option"
  winner :: "PieceColor option"

definition positionsEqual :: "Position \<Rightarrow> Position \<Rightarrow> bool" where
  "positionsEqual pos1 pos2 \<longleftrightarrow> row pos1 = row pos2 \<and> col pos1 = col pos2"

definition isValidBoard :: "Board \<Rightarrow> bool" where
  "isValidBoard b \<longleftrightarrow> length b = 8 \<and> list_all (\<lambda>r. length r = 8) b"

section \<open>Board access\<close>

text \<open>\<open>board[r]?.[c]\<close>: a missing row or a missing cell reads as \<open>undefined\<close>, which the
  engine treats like \<open>null\<close>.\<close>

definition cellAt :: "'a option list list \<Rightarrow> int \<Rightarrow> int \<Rightarrow> 'a option" where
  "cellAt b r c =
     (if 0 \<le> r \<and> r < int (length b)
      then (let rw = b ! nat r in
            if 0 \<le> c \<and> c < int (length rw) then rw ! nat c else None)
      else None)"

definition pieceAt :: "GameState \<Rightarrow> Position \<Rightarrow> Piece option" where
  "pieceAt s pos = cellAt (board s) (row pos) (col pos)"

definition hasRow :: "'a list \<Rightarrow> int \<Rightarrow> bool" where
  "hasRow b r \<longleftrightarrow> 0 \<le> r \<and> r < int (length b)"

text \<open>\<open>rw[c] = v\<close> on a row array: an index inside the row replaces the cell, an index past
  the end extends the array (the cells between are holes and read as \<open>undefined\<close>). A negative
  index names a property that is no cell of the array; no cell changes, and the model keeps
  no such properties (every copy of a board made with \<open>map\<close> drops them).\<close>

definition setRow :: "'a option list \<Rightarrow> int \<Rightarrow> 'a option \<Rightarrow> 'a option list" where
  "setRow rw c v =
     (if c < 0 then rw
      else if c < int (length rw) then rw[nat c := v]
      else rw @ replicate (nat c - length rw) None @ [v])"

text \<open>\<open>board[r]![c] = v\<close> for a row that exists. Where the row is missing JavaScript raises
  a TypeError; the callers below test \<open>hasRow\<close> first.\<close>

definition setCell :: "'a option list list \<Rightarrow> int \<Rightarrow> int \<Rightarrow> 'a option \<Rightarrow> 'a option list list" where
  "setCell b r c v = b[nat r := setRow (b ! nat r) c v]"

definition isPositionOnBoard :: "Position \<Rightarrow> bool" where
  "isPositionOnBoard pos \<longleftrightarrow> row pos \<ge> 0 \<and> row pos \<le> 7 \<and> col pos \<ge> 0 \<and> col pos \<le> 7"

text \<open>The loops \<open>for row = 0..7, for col = 0..7\<close> visit the squares in this order.\<close>

definition indices :: "int list" where
  "indices = [0, 1, 2, 3, 4, 5, 6, 7]"

definition allSquares :: "Position list" where
  "allSquares = concat (map (\<lambda>r. map (\<lambda>c. \<lparr>row = r, col = c\<rparr>) indices) indices)"

text \<open>A loop that returns \<open>true\<close> at the first element passing the test and \<open>false\<close> after
  the last one; \<open>Array.some\<close> does the same.\<close>

fun anyOf :: "('a \<Rightarrow> bool) \<Rightarrow> 'a list \<Rightarrow> bool" where
  "anyOf P [] = False"
| "anyOf P (x # xs) = (if P x then True else anyOf P xs)"

section \<open>Move generation (src/engine/ChessEngine.ts)\<close>

text \<open>The test shared by the knight and king loops: the square is empty or holds a piece
  of the other colour.\<close>

definition emptyOrOpponent :: "Piece \<Rightarrow> GameState \<Rightarrow> Position \<Rightarrow> bool" where
  "emptyOrOpponent p s newPos =
     (case pieceAt s newPos of None \<Rightarrow> True | Some targetPiece \<Rightarrow> color targetPiece \<noteq> color p)"

definition addOffset :: "Position \<Rightarrow> int \<times> int \<Rightarrow> Position" where
  "addOffset pos off = \<lparr>row = row pos + fst off, col = col pos + snd off\<rparr>"

text \<open>The loop over a list of offsets, written out three times in the source
  (\<open>getKnightMoves\<close>, \<open>getKingMoves\<close>, \<open>getBasicKingMoves\<close>).\<close>

definition offsetMoves :: "Piece \<Rightarrow> GameState \<Rightarrow> (int \<times> int) list \<Rightarrow> Position list" where
  "offsetMoves p s offsets =
     filter (\<lambda>newPos. isPositionOnBoard newPos \<and> emptyOrOpponent p s newPos)
       (map (addOffset (position p)) offsets)"

definition getEnPassantMoves :: "Piece \<Rightarrow> GameState \<Rightarrow> Position list" where
  "getEnPassantMoves pawn s =
     (let correctRank = (if color pawn = White then 3 else 4) in
      if row (position pawn) \<noteq> correctRank then []
      else case lastMove s of
        None \<Rightarrow> []
      | Some lm \<Rightarrow>
          if type (piece lm) \<noteq> Pawn \<or> color (piece lm) = color pawn then []
          else let rowDiff = \<bar>row (to lm) - row (from lm)\<bar> in
            if rowDiff \<noteq> 2 then []
            else let opponentPawnCol = col (to lm);
                     colDiff = \<bar>opponentPawnCol - col (position pawn)\<bar> in
              if colDiff = 1 \<and> row (to lm) = row (position pawn)
              then (let direction = (if color pawn = White then - 1 else 1) in
                    [\<lparr>row = row (position pawn) + direction, col = opponentPawnCol\<rparr>])
              else [])"

definition getPawnMoves :: "Piece \<Rightarrow> GameState \<Rightarrow> Position list" where
  "getPawnMoves p s =
     (let r = row (position p); c = col (position p);
          direction = (if color p = White then - 1 else 1);
          forwardOne = \<lparr>row = r + direction, col = c\<rparr>;
          forwardTwo = \<lparr>row = r + direction * 2, col = c\<rparr>;
          forward =
            (if isPositionOnBoard forwardOne \<and> pieceAt s forwardOne = None
             then forwardOne #
               (if \<not> hasMoved p \<and> isPositionOnBoard forwardTwo \<and> pieceAt s forwardTwo = None
                then [forwardTwo] else [])
             else []);
          captureLeft = \<lparr>row = r + direction, col = c - 1\<rparr>;
          captureRight = \<lparr>row = r + direction, col = c + 1\<rparr>;
          captures =
            filter (\<lambda>capturePos. isPositionOnBoard capturePos \<and>
                      (case pieceAt s capturePos of None \<Rightarrow> False
                       | Some targetPiece \<Rightarrow> color targetPiece \<noteq> color p))
              [captureLeft, captureRight]
      in forward @ captures @ getEnPassantMoves p s)"

definition knightOffsets :: "(int \<times> int) list" where
  "knightOffsets = [(- 2, - 1), (- 2, 1), (- 1, - 2), (- 1, 2), (1, - 2), (1, 2), (2, - 1), (2, 1)]"

definition getKnightMoves :: "Piece \<Rightarrow> GameState \<Rightarrow> Position list" where
  "getKnightMoves p s = offsetMoves p s knightOffsets"

text \<open>The \<open>while\<close> loop of \<open>getSlidingMoves\<close>, from the square \<open>cur\<close> on. The first argument
  bounds the number of iterations: \<open>getSlidingMoves\<close> starts it with 8, and a ray of the
  eight directions the engine uses holds at most 8 squares of the board
  (lemma \<open>slideFrom_fuel\<close>).\<close>

fun slideFrom :: "nat \<Rightarrow> Piece \<Rightarrow> int \<times> int \<Rightarrow> GameState \<Rightarrow> Position \<Rightarrow> Position list" where
  "slideFrom 0 p direction s cur = []"
| "slideFrom (Suc n) p direction s cur =
     (if isPositionOnBoard cur
      then (case pieceAt s cur of
              None \<Rightarrow> cur # slideFrom n p direction s (addOffset cur direction)
            | Some targetPiece \<Rightarrow> (if color targetPiece \<noteq> color p then [cur] else []))
      else [])"

definition getSlidingMoves :: "Piece \<Rightarrow> int \<times> int \<Rightarrow> GameState \<Rightarrow> Position list" where
  "getSlidingMoves p direction s = slideFrom 8 p direction s (addOffset (position p) direction)"

definition bishopDirections :: "(int \<times> int) list" where
  "bishopDirections = [(- 1, - 1), (- 1, 1), (1, - 1), (1, 1)]"

definition rookDirections :: "(int \<times> int) list" where
  "rookDirections = [(- 1, 0), (1, 0), (0, - 1), (0, 1)]"

definition queenDirections :: "(int \<times> int) list" where
  "queenDirections = [(- 1, - 1), (- 1, 0), (- 1, 1), (0, - 1), (0, 1), (1, - 1), (1, 0), (1, 1)]"

definition getBishopMoves :: "Piece \<Rightarrow> GameState \<Rightarrow> Position list" where
  "getBishopMoves p s = concat (map (\<lambda>direction. getSlidingMoves p direction s) bishopDirections)"

definition getRookMoves :: "Piece \<Rightarrow> GameState \<Rightarrow> Position list" where
  "getRookMoves p s = concat (map (\<lambda>direction. getSlidingMoves p direction s) rookDirections)"

definition getQueenMoves :: "Piece \<Rightarrow> GameState \<Rightarrow> Position list" where
  "getQueenMoves p s = concat (map (\<lambda>direction. getSlidingMoves p direction s) queenDirections)"

definition kingOffsets :: "(int \<times> int) list" where
  "kingOffsets = [(- 1, - 1), (- 1, 0), (- 1, 1), (0, - 1), (0, 1), (1, - 1), (1, 0), (1, 1)]"

definition getBasicKingMoves :: "Piece \<Rightarrow> GameState \<Rightarrow> Position list" where
  "getBasicKingMoves p s = offsetMoves p s kingOffsets"

definition getPseudoLegalMovesForAttack :: "Piece \<Rightarrow> GameState \<Rightarrow> Position list" where
  "getPseudoLegalMovesForAttack p s =
     (case type p of
        Pawn \<Rightarrow> getPawnMoves p s
      | Knight \<Rightarrow> getKnightMoves p s
      | Bishop \<Rightarrow> getBishopMoves p s
      | Rook \<Rightarrow> getRookMoves p s
      | Queen \<Rightarrow> getQueenMoves p s
      | King \<Rightarrow> getBasicKingMoves p s)"

definition opponentOf :: "PieceColor \<Rightarrow> PieceColor" where
  "opponentOf c = (if c = White then Black else White)"

text \<open>\<open>byColor\<close> is the colour under attack; the attackers are the pieces of the other
  colour. The two loops return at the first attacker found.\<close>

definition isPositionUnderAttack :: "Position \<Rightarrow> PieceColor \<Rightarrow> GameState \<Rightarrow> bool" where
  "isPositionUnderAttack pos byColor s =
     (let opponentColor = opponentOf byColor in
      anyOf (\<lambda>sq. case pieceAt s sq of
                None \<Rightarrow> False
              | Some p \<Rightarrow>
                  if color p = opponentColor
                  then anyOf (\<lambda>m. positionsEqual m pos) (getPseudoLegalMovesForAttack p s)
                  else False)
        allSquares)"

definition getCastlingMoves :: "Piece \<Rightarrow> GameState \<Rightarrow> Position list" where
  "getCastlingMoves king s =
     (if hasMoved king then []
      else if isPositionUnderAttack (position king) (color king) s then []
      else let backRank = (if color king = White then 7 else 0) in
        if row (position king) \<noteq> backRank \<or> col (position king) \<noteq> 4 then []
        else
          (case cellAt (board s) backRank 7 of
             None \<Rightarrow> []
           | Some kingsideRook \<Rightarrow>
               if type kingsideRook = Rook \<and> color kingsideRook = color king \<and>
                  \<not> hasMoved kingsideRook \<and>
                  cellAt (board s) backRank 5 = None \<and> cellAt (board s) backRank 6 = None \<and>
                  \<not> isPositionUnderAttack \<lparr>row = backRank, col = 5\<rparr> (color king) s
               then [\<lparr>row = backRank, col = 6\<rparr>] else [])
          @
          (case cellAt (board s) backRank 0 of
             None \<Rightarrow> []
           | Some queensideRook \<Rightarrow>
               if type queensideRook = Rook \<and> color queensideRook = color king \<and>
                  \<not> hasMoved queensideRook \<and>
                  cellAt (board s) backRank 1 = None \<and> cellAt (board s) backRank 2 = None \<and>
                  cellAt (board s) backRank 3 = None \<and>
                  \<not> isPositionUnderAttack \<lparr>row = backRank, col = 3\<rparr> (color king) s
               then [\<lparr>row = backRank, col = 2\<rparr>] else []))"

definition getKingMoves :: "Piece \<Rightarrow> GameState \<Rightarrow> Position list" where
  "getKingMoves p s = offsetMoves p s kingOffsets @ getCastlingMoves p s"

definition getPseudoLegalMoves :: "Piece \<Rightarrow> GameState \<Rightarrow> Position list" where
  "getPseudoLegalMoves p s =
     (case type p of
        Pawn \<Rightarrow> getPawnMoves p s
      | Knight \<Rightarrow> getKnightMoves p s
      | Bishop \<Rightarrow> getBishopMoves p s
      | Rook \<Rightarrow> getRookMoves p s
      | Queen \<Rightarrow> getQueenMoves p s
      | King \<Rightarrow> getKingMoves p s)"

section \<open>Legality filter and status detection\<close>

text \<open>\<open>applyMoveToState\<close> works on a deep copy of the board, which in a model of values is
  the board itself. With no piece at \<open>from\<close> the input state is returned. The piece is
  written to \<open>to\<close> first and \<open>from\<close> is cleared second, so a move with \<open>from = to\<close>
  removes the piece. Where the board has no row \<open>to.row\<close> the write raises a TypeError in
  JavaScript; \<open>getValidMoves\<close>, the only caller, passes rows between 0 and 7, which
  an 8-row board has, and the model returns the state unchanged there.\<close>

definition applyMoveToState :: "Position \<Rightarrow> Position \<Rightarrow> GameState \<Rightarrow> GameState" where
  "applyMoveToState fromPos toPos s =
     (case pieceAt s fromPos of
        None \<Rightarrow> s
      | Some p \<Rightarrow>
          if \<not> hasRow (board s) (row toPos) then s
          else s\<lparr>board :=
                 setCell (setCell (board s) (row toPos) (col toPos) (Some (p\<lparr>position := toPos\<rparr>)))
                   (row fromPos) (col fromPos) None\<rparr>)"

definition findKing :: "PieceColor \<Rightarrow> GameState \<Rightarrow> Position option" where
  "findKing c s =
     find (\<lambda>sq. case pieceAt s sq of None \<Rightarrow> False | Some p \<Rightarrow> type p = King \<and> color p = c)
       allSquares"

definition wouldLeaveKingInCheck :: "Position \<Rightarrow> Position \<Rightarrow> GameState \<Rightarrow> bool" where
  "wouldLeaveKingInCheck fromPos toPos s =
     (let tempState = applyMoveToState fromPos toPos s in
      case findKing (currentTurn s) tempState of
        None \<Rightarrow> True
      | Some kingPos \<Rightarrow> isPositionUnderAttack kingPos (currentTurn s) tempState)"

definition getValidMoves :: "Position \<Rightarrow> GameState \<Rightarrow> Position list" where
  "getValidMoves pos s =
     (case pieceAt s pos of
        None \<Rightarrow> []
      | Some p \<Rightarrow>
          if color p \<noteq> currentTurn s then []
          else filter (\<lambda>toPos. \<not> wouldLeaveKingInCheck pos toPos s) (getPseudoLegalMoves p s))"

definition isPawnPromotion :: "Position \<Rightarrow> Position \<Rightarrow> GameState \<Rightarrow> bool" where
  "isPawnPromotion fromPos toPos s =
     (case pieceAt s fromPos of
        None \<Rightarrow> False
      | Some p \<Rightarrow>
          if type p \<noteq> Pawn then False
          else row toPos = (if color p = White then 0 else 7))"

definition isInCheck :: "PieceColor \<Rightarrow> GameState \<Rightarrow> bool" where
  "isInCheck c s =
     (case findKing c s of
        None \<Rightarrow> False
      | Some kingPos \<Rightarrow> isPositionUnderAttack kingPos c s)"

definition hasAnyLegalMoves :: "PieceColor \<Rightarrow> GameState \<Rightarrow> bool" where
  "hasAnyLegalMoves c s =
     anyOf (\<lambda>sq. case pieceAt s sq of
               None \<Rightarrow> False
             | Some p \<Rightarrow> if color p = c then length (getValidMoves sq s) > 0 else False)
       allSquares"

definition isCheckmate :: "PieceColor \<Rightarrow> GameState \<Rightarrow> bool" where
  "isCheckmate c s = (if \<not> isInCheck c s then False else \<not> hasAnyLegalMoves c s)"

definition isStalemate :: "GameState \<Rightarrow> bool" where
  "isStalemate s =
     (let currentColor = currentTurn s in
      if isInCheck currentColor s then False else \<not> hasAnyLegalMoves currentColor s)"

text \<open>The moves that \<open>getAllLegalMoves\<close> builds carry \<open>from\<close>, \<open>to\<close> and \<open>piece\<close> only.\<close>

definition plainMove :: "Position \<Rightarrow> Position \<Rightarrow> Piece \<Rightarrow> Move" where
  "plainMove fromPos toPos p =
     \<lparr>from = fromPos, to = toPos, piece = p, capturedPiece = None,
      isEnPassant = False, isCastling = False, promotionType = None\<rparr>"

definition getAllLegalMoves :: "PieceColor \<Rightarrow> GameState \<Rightarrow> Move list" where
  "getAllLegalMoves c s =
     concat (map (\<lambda>sq. case pieceAt s sq of
                     None \<Rightarrow> []
                   | Some p \<Rightarrow>
                       if color p = c
                       then map (\<lambda>toPos. plainMove sq toPos p) (getValidMoves sq s)
                       else [])
               allSquares)"

section \<open>Move execution and validation\<close>

datatype error = NoPieceAtSource | TypeError | NoLegalMoves

text \<open>\<open>executeMove\<close> mutates objects of its own deep copy of the board. In this model of
  values the mutated piece is built first and then stored:
  \<^item> \<open>piece.type = move.promotionType\<close> is the last write to the moving piece in the source
    and is applied at once here; nothing reads the type of the moving piece in between.
  \<^item> \<open>capturedPiece\<close> is the moving object itself when the en-passant square or the
    destination is the source square; it then shows the mover's final fields.
  \<^item> On the queenside branch of castling the rook read from column 0 is the moving object
    itself when the destination is that corner; the cell read then holds the moved piece.
  \<^item> A missing row under a write (\<open>newBoard[r]![c] = ...\<close>) raises a TypeError.\<close>

definition executeMove :: "Move \<Rightarrow> GameState \<Rightarrow> error + GameState" where
  "executeMove move s =
     (case pieceAt s (from move) of
        None \<Rightarrow> Inl NoPieceAtSource
      | Some p0 \<Rightarrow>
          let b0 = board s;
              fr = from move; t = to move;
              targetPiece = cellAt b0 (row t) (col t);
              enPassantCell = cellAt b0 (row fr) (col t);
              b1 = (if isEnPassant move \<and> enPassantCell \<noteq> None
                    then setCell b0 (row fr) (col t) None else b0)
          in if \<not> hasRow b1 (row t) then Inl TypeError
          else
            let moved = p0\<lparr>type := (case promotionType move of
                                         None \<Rightarrow> type p0 | Some pt \<Rightarrow> promotedType pt),
                            position := t, hasMoved := True\<rparr>;
                b2 = setCell b1 (row t) (col t) (Some moved);
                b3 = setCell b2 (row fr) (col fr) None;
                backRank = (if color p0 = White then 7 else 0);
                isKingside = (col t = 6);
                rookCol = (if isKingside then 7 else 0);
                rookDest = (if isKingside then 5 else 3)
            in if isCastling move \<and> \<not> hasRow b3 backRank then Inl TypeError
            else
              let rook = (if isCastling move then cellAt b3 backRank rookCol else None);
                  movedRook = map_option
                    (\<lambda>rk. rk\<lparr>position := \<lparr>row = backRank, col = rookDest\<rparr>, hasMoved := True\<rparr>) rook;
                  b4 = (case movedRook of
                          None \<Rightarrow> b3
                        | Some rk \<Rightarrow>
                            setCell (setCell b3 backRank rookDest (Some rk)) backRank rookCol None);
                  rookIsMover = (isCastling move \<and> \<not> isKingside \<and> row t = backRank \<and>
                                 col t = 0 \<and> \<not> positionsEqual fr t);
                  finalMover = (if rookIsMover then movedRook else Some moved);
                  moverCaptured = (if isEnPassant move then col t = col fr
                                   else positionsEqual t fr);
                  captured = (if moverCaptured then finalMover
                              else if isEnPassant move then enPassantCell else targetPiece);
                  newCapturedPieces =
                    capturedPieces s @ (case captured of None \<Rightarrow> [] | Some cp \<Rightarrow> [cp]);
                  newTurn = (if currentTurn s = White then Black else White);
                  executedMove = move\<lparr>capturedPiece := captured\<rparr>;
                  newState = \<lparr>board = b4, currentTurn = newTurn,
                              moveHistory = moveHistory s @ [executedMove],
                              capturedPieces = newCapturedPieces,
                              isCheckFlag = False, isCheckmateFlag = False,
                              isStalemateFlag = False,
                              moveCount = moveCount s + 1,
                              lastMove = Some executedMove,
                              isAIThinking = None, status = None, winner = None\<rparr>;
                  newState1 = newState\<lparr>isCheckFlag := isInCheck newTurn newState\<rparr>;
                  newState2 = newState1\<lparr>isCheckmateFlag := isCheckmate newTurn newState1\<rparr>;
                  newState3 = newState2\<lparr>isStalemateFlag := isStalemate newState2\<rparr>
              in Inr newState3)"

text \<open>Every read of \<open>isValidMove\<close> is guarded (\<open>?.\<close>) or goes to a field that the type
  \<open>Move\<close> requires, so it returns a boolean on every typed input: the model is a total
  function to \<open>bool\<close>.\<close>

definition isValidMove :: "Move \<Rightarrow> GameState \<Rightarrow> bool" where
  "isValidMove move s =
     (case pieceAt s (from move) of
        None \<Rightarrow> False
      | Some p \<Rightarrow>
          if color p \<noteq> currentTurn s then False
          else if type p \<noteq> type (piece move) \<or> color p \<noteq> color (piece move) then False
          else if \<not> anyOf (\<lambda>validMove. positionsEqual validMove (to move))
                       (getValidMoves (from move) s) then False
          else if isCastling move \<and>
                  \<not> (type p = King \<and> \<bar>col (to move) - col (from move)\<bar> = 2) then False
          else if isEnPassant move \<and>
                  \<not> (type p = Pawn \<and> col (to move) \<noteq> col (from move) \<and>
                     pieceAt s (to move) = None) then False
          else if promotionType move \<noteq> None \<and>
                  \<not> isPawnPromotion (from move) (to move) s then False
          else True)"

section \<open>The initial position\<close>

definition backRankTypes :: "PieceType list" where
  "backRankTypes = [Rook, Knight, Bishop, Queen, King, Bishop, Knight, Rook]"

definition newPiece :: "PieceType \<Rightarrow> PieceColor \<Rightarrow> int \<Rightarrow> int \<Rightarrow> Piece option" where
  "newPiece t c r cl = Some \<lparr>type = t, color = c, position = \<lparr>row = r, col = cl\<rparr>, hasMoved = False\<rparr>"

definition createInitialBoard :: Board where
  "createInitialBoard =
     [map (\<lambda>(t, cl). newPiece t Black 0 cl) (zip backRankTypes indices),
      map (\<lambda>cl. newPiece Pawn Black 1 cl) indices,
      replicate 8 None, replicate 8 None, replicate 8 None, replicate 8 None,
      map (\<lambda>cl. newPiece Pawn White 6 cl) indices,
      map (\<lambda>(t, cl). newPiece t White 7 cl) (zip backRankTypes indices)]"

definition initializeGame :: GameState where
  "initializeGame =
     \<lparr>board = createInitialBoard, currentTurn = White, moveHistory = [], capturedPieces = [],
      isCheckFlag = False, isCheckmateFlag = False, isStalemateFlag = False, moveCount = 0,
      lastMove = None, isAIThinking = None, status = None, winner = None\<rparr>"

section \<open>Example positions\<close>

definition emptyBoard :: Board where
  "emptyBoard = replicate 8 (replicate 8 None)"

definition mkPiece :: "PieceType \<Rightarrow> PieceColor \<Rightarrow> int \<Rightarrow> int \<Rightarrow> bool \<Rightarrow> Piece" where
  "mkPiece t c r cl moved =
     \<lparr>type = t, color = c, position = \<lparr>row = r, col = cl\<rparr>, hasMoved = moved\<rparr>"

text \<open>Every piece of the list stands in the cell that its \<open>position\<close> names.\<close>

definition placePieces :: "Piece list \<Rightarrow> Board" where
  "placePieces ps =
     foldl (\<lambda>b p. setCell b (row (position p)) (col (position p)) (Some p)) emptyBoard ps"

definition mkState :: "Piece list \<Rightarrow> PieceColor \<Rightarrow> Move option \<Rightarrow> GameState" where
  "mkState ps turn lm =
     \<lparr>board = placePieces ps, currentTurn = turn, moveHistory = [], capturedPieces = [],
      isCheckFlag = False, isCheckmateFlag = False, isStalemateFlag = False, moveCount = 0,
      lastMove = lm, isAIThinking = None, status = None, winner = None\<rparr>"


text \<open>Black king a8, white queen c7, white king h1; black to move.\<close>

definition queenStalemate :: GameState where
  "queenStalemate = mkState
     [mkPiece King Black 0 0 True, mkPiece Queen White 1 2 True, mkPiece King White 7 7 True]
     Black None"

text \<open>The test of \<open>findKing\<close> at one square.\<close>

definition kingAt :: "PieceColor \<Rightarrow> GameState \<Rightarrow> Position \<Rightarrow> bool" where
  "kingAt c s sq = (case pieceAt s sq of None \<Rightarrow> False | Some p \<Rightarrow> type p = King \<and> color p = c)"

text \<open>White has a queen and a pawn and no king; white to move.\<close>

definition kinglessWhite :: GameState where
  "kinglessWhite = mkState
     [mkPiece Queen White 7 3 False, mkPiece Pawn White 6 0 False, mkPiece King Black 0 4 False]
     White None"

text \<open>White king a5 and white pawn b5; black rook h5; the black pawn has just gone from c7
  to c5, so it stands between the white pawn and the rook. White to move.\<close>

definition blackDoubleStep :: Move where
  "blackDoubleStep =
     plainMove \<lparr>row = 1, col = 2\<rparr> \<lparr>row = 3, col = 2\<rparr> (mkPiece Pawn Black 1 2 False)"

definition enPassantPin :: GameState where
  "enPassantPin = mkState
     [mkPiece King White 3 0 True, mkPiece Pawn White 3 1 True, mkPiece Pawn Black 3 2 True,
      mkPiece Rook Black 3 7 True, mkPiece King Black 0 4 True]
     White (Some blackDoubleStep)"

text \<open>The capture b5 takes c6 en passant, as a caller flags it.\<close>

definition enPassantCapture :: Move where
  "enPassantCapture =
     (plainMove \<lparr>row = 3, col = 1\<rparr> \<lparr>row = 2, col = 2\<rparr> (mkPiece Pawn White 3 1 True))
       \<lparr>isEnPassant := True\<rparr>"

text \<open>The white pawn has just gone from e2 to e4 beside the black pawn on d4; e3 is empty.
  Black to move.\<close>

definition whiteDoubleStep :: Move where
  "whiteDoubleStep =
     plainMove \<lparr>row = 6, col = 4\<rparr> \<lparr>row = 4, col = 4\<rparr> (mkPiece Pawn White 6 4 False)"

definition pawnBesidePawn :: GameState where
  "pawnBesidePawn = mkState
     [mkPiece King White 7 7 True, mkPiece Pawn White 4 4 True, mkPiece Pawn Black 4 3 True,
      mkPiece King Black 0 0 True]
     Black (Some whiteDoubleStep)"

text \<open>White king e1 and rook h1, neither moved; a black pawn on f2, straight above f1, or
  on g2, diagonally above f1. White to move.\<close>

definition pawnAboveTransit :: GameState where
  "pawnAboveTransit = mkState
     [mkPiece King White 7 4 False, mkPiece Rook White 7 7 False, mkPiece Pawn Black 6 5 True,
      mkPiece King Black 0 0 True]
     White None"

definition pawnBesideTransit :: GameState where
  "pawnBesideTransit = mkState
     [mkPiece King White 7 4 False, mkPiece Rook White 7 7 False, mkPiece Pawn Black 6 6 True,
      mkPiece King Black 0 0 True]
     White None"

text \<open>White king e1 and rook h1, neither moved, f1 and g1 empty; the black rook on g8 attacks
  g1 and neither e1 nor f1. White to move.\<close>

definition castlingIntoCheck :: GameState where
  "castlingIntoCheck = mkState
     [mkPiece King White 7 4 False, mkPiece Rook White 7 7 False, mkPiece Rook Black 0 6 True,
      mkPiece King Black 0 0 True]
     White None"

text \<open>The same without the black rook.\<close>

definition castlingReady :: GameState where
  "castlingReady = mkState
     [mkPiece King White 7 4 False, mkPiece Rook White 7 7 False, mkPiece King Black 0 0 True]
     White None"

text \<open>In \<open>castlingReady\<close>: the king-side castling move as a caller flags it, and the same
  flag on a one-square king move.\<close>

definition castleKingside :: Move where
  "castleKingside =
     (plainMove \<lparr>row = 7, col = 4\<rparr> \<lparr>row = 7, col = 6\<rparr> (mkPiece King White 7 4 False))
       \<lparr>isCastling := True\<rparr>"

definition falseCastle :: Move where
  "falseCastle =
     (plainMove \<lparr>row = 7, col = 4\<rparr> \<lparr>row = 7, col = 5\<rparr> (mkPiece King White 7 4 False))
       \<lparr>isCastling := True\<rparr>"

text \<open>The moves of the initial position: a white pawn of column \<open>c\<close> to row \<open>r\<close>, and a white
  knight from column \<open>c\<close> of row 7 to column \<open>c'\<close> of row 5.\<close>

definition whitePawnMove :: "int \<Rightarrow> int \<Rightarrow> Move" where
  "whitePawnMove c r =
     plainMove \<lparr>row = 6, col = c\<rparr> \<lparr>row = r, col = c\<rparr> (mkPiece Pawn White 6 c False)"

definition whiteKnightMove :: "int \<Rightarrow> int \<Rightarrow> Move" where
  "whiteKnightMove c c' =
     plainMove \<lparr>row = 7, col = c\<rparr> \<lparr>row = 5, col = c'\<rparr> (mkPiece Knight White 7 c False)"

definition openingMoves :: "Move list" where
  "openingMoves =
     concat (map (\<lambda>c. [whitePawnMove c 5, whitePawnMove c 4]) indices) @
     [whiteKnightMove 1 0, whiteKnightMove 1 2, whiteKnightMove 6 5, whiteKnightMove 6 7]"

definition blackRepliesAfter :: "Move \<Rightarrow> nat option" where
  "blackRepliesAfter m =
     (case executeMove m initializeGame of
        Inl e \<Rightarrow> None
      | Inr s' \<Rightarrow> Some (length (getAllLegalMoves Black s')))"

section \<open>The opponent's move selection (src/ai/AIOpponent.ts)\<close>

datatype DifficultyMode = Easy | Hard

record AIConfig =
  difficulty :: DifficultyMode
  maxThinkingTime :: nat

text \<open>\<open>wouldResultInCheckmate\<close> raises what \<open>executeMove\<close> raises.\<close>

definition wouldResultInCheckmate :: "Move \<Rightarrow> GameState \<Rightarrow> error + bool" where
  "wouldResultInCheckmate move s =
     (case executeMove move s of
        Inl e \<Rightarrow> Inl e
      | Inr newState \<Rightarrow>
          (let opponentColor = (if color (piece move) = White then Black else White)
           in Inr (isCheckmate opponentColor newState)))"

text \<open>The scoring loop of \<open>generateMove\<close>. The score of a candidate is a floating-point
  number: the value of \<open>minimax\<close> on the state after the move, plus a draw of
  \<open>Math.random\<close> in easy mode. The model takes it from a parameter \<open>scoreOf\<close>, a function of
  the candidate's index and of the state after the move, with real values; what
  follows holds for every such function.\<close>

fun scoreMoves ::
  "(nat \<Rightarrow> GameState \<Rightarrow> real) \<Rightarrow> GameState \<Rightarrow> Move list \<Rightarrow> nat \<Rightarrow> error + (Move \<times> real) list"
where
  "scoreMoves scoreOf s [] i = Inr []"
| "scoreMoves scoreOf s (move # rest) i =
     (case executeMove move s of
        Inl e \<Rightarrow> Inl e
      | Inr newState \<Rightarrow>
          (case scoreMoves scoreOf s rest (Suc i) of
             Inl e \<Rightarrow> Inl e
           | Inr scored \<Rightarrow> Inr ((move, scoreOf i newState) # scored)))"

text \<open>\<open>movesWithScores.filter(({ move }) => !this.wouldResultInCheckmate(move, state))\<close>.\<close>

fun filterNonCheckmate :: "(Move \<times> real) list \<Rightarrow> GameState \<Rightarrow> error + (Move \<times> real) list" where
  "filterNonCheckmate [] s = Inr []"
| "filterNonCheckmate ((move, sc) # rest) s =
     (case wouldResultInCheckmate move s of
        Inl e \<Rightarrow> Inl e
      | Inr mate \<Rightarrow>
          (case filterNonCheckmate rest s of
             Inl e \<Rightarrow> Inl e
           | Inr kept \<Rightarrow> Inr (if mate then kept else (move, sc) # kept)))"

text \<open>The move that \<open>generateMove\<close> resolves to. The executor of \<open>minimaxPromise\<close> runs to its
  \<open>resolve\<close> inside \<open>new Promise\<close>, before \<open>Promise.race\<close> is called, and the timer of
  \<open>timeoutPromise\<close> cannot fire before the call returns: the race is settled by the search,
  whose result is modelled here, and \<open>maxThinkingTime\<close> has no effect on it. An exception in
  the search rejects the promise (\<open>Inl\<close>). \<open>Array.sort\<close> is stable, and the comparator
  \<open>b.score - a.score\<close> sorts by descending score. \<open>randomIndex\<close> stands for the draw
  \<open>Math.floor(Math.random() * legalMoves.length)\<close> of the last branch.\<close>

definition generateMove ::
  "(nat \<Rightarrow> GameState \<Rightarrow> real) \<Rightarrow> nat \<Rightarrow> GameState \<Rightarrow> AIConfig \<Rightarrow> error + Move"
where
  "generateMove scoreOf randomIndex s config =
     (let legalMoves = getAllLegalMoves Black s in
      if length legalMoves = 0 then Inl NoLegalMoves
      else case scoreMoves scoreOf s legalMoves 0 of
        Inl e \<Rightarrow> Inl e
      | Inr scored \<Rightarrow>
          (let movesWithScores = sort_key (\<lambda>(move, sc). - sc) scored;
               filtered =
                 (if difficulty config = Easy \<or> (difficulty config = Hard \<and> moveCount s < 10)
                  then filterNonCheckmate movesWithScores s
                  else Inr [])
           in case filtered of
                Inl e \<Rightarrow> Inl e
              | Inr nonCheckmateMovesWithScores \<Rightarrow>
                  (let candidateMoves =
                         (if length nonCheckmateMovesWithScores > 0
                          then nonCheckmateMovesWithScores else movesWithScores)
                   in if length candidateMoves = 0
                      then Inr (legalMoves ! (randomIndex mod length legalMoves))
                      else Inr (fst (hd candidateMoves)))))"

text \<open>Black rook a8 and king e8 against the white king on g1 behind its pawns f2, g2, h2:
  the rook mates on a1. Black to move.\<close>

definition mateInOne :: GameState where
  "mateInOne = mkState
     [mkPiece King White 7 6 True, mkPiece Pawn White 6 5 False, mkPiece Pawn White 6 6 False,
      mkPiece Pawn White 6 7 False, mkPiece Rook Black 0 0 True, mkPiece King Black 0 4 True]
     Black None"

section \<open>Move execution on a store of objects\<close>

text \<open>\<open>executeMove\<close> and \<open>applyMoveToState\<close> assign to fields of piece objects and to cells of row
  arrays. To state what they leave untouched, the same code is modelled once more over a
  store: an address is an index into the list of piece objects or into the list of row
  arrays, and a new object goes to the end of its list. Objects that no code of the engine
  assigns to (positions, moves, the outer board array, the arrays of history and captured
  pieces, the state record) stay values; a board is the list of the addresses of its rows,
  and a cell holds the address of a piece or nothing.\<close>

record Heap =
  pieceObjs :: "Piece list"
  rowObjs :: "nat option list list"

record MoveRef =
  rfrom :: Position
  rto :: Position
  rpiece :: nat
  rcapturedPiece :: "nat option"
  risEnPassant :: bool
  risCastling :: bool
  rpromotionType :: "PromotionType option"

record StateRef =
  rboard :: "nat list"
  rcurrentTurn :: PieceColor
  rmoveHistory :: "MoveRef list"
  rcapturedPieces :: "nat list"
  risCheckFlag :: bool
  risCheckmateFlag :: bool
  risStalemateFlag :: bool
  rmoveCount :: nat
  rlastMove :: "MoveRef option"
  risAIThinking :: "bool option"
  rstatus :: "GameStatus option"
  rwinner :: "PieceColor option"

definition newPieceObj :: "Heap \<Rightarrow> Piece \<Rightarrow> nat \<times> Heap" where
  "newPieceObj h p = (length (pieceObjs h), h\<lparr>pieceObjs := pieceObjs h @ [p]\<rparr>)"

definition newRowObj :: "Heap \<Rightarrow> nat option list \<Rightarrow> nat \<times> Heap" where
  "newRowObj h cells = (length (rowObjs h), h\<lparr>rowObjs := rowObjs h @ [cells]\<rparr>)"

text \<open>\<open>row.map(piece => piece ? { ...piece, position: { ...piece.position } } : null)\<close>.\<close>

fun copyCells :: "Heap \<Rightarrow> nat option list \<Rightarrow> nat option list \<times> Heap" where
  "copyCells h [] = ([], h)"
| "copyCells h (None # cells) =
     (let (cells', h') = copyCells h cells in (None # cells', h'))"
| "copyCells h (Some a # cells) =
     (let (a', h1) = newPieceObj h (pieceObjs h ! a);
          (cells', h2) = copyCells h1 cells
      in (Some a' # cells', h2))"

text \<open>\<open>state.board.map(row => row.map(...))\<close>.\<close>

fun copyRows :: "Heap \<Rightarrow> nat list \<Rightarrow> nat list \<times> Heap" where
  "copyRows h [] = ([], h)"
| "copyRows h (ra # ras) =
     (let (cells, h1) = copyCells h (rowObjs h ! ra);
          (ra', h2) = newRowObj h1 cells;
          (ras', h3) = copyRows h2 ras
      in (ra' # ras', h3))"

text \<open>\<open>b[r]?.[c]\<close> and \<open>b[r]![c] = v\<close> (for a row that exists) through the store.\<close>

definition refAt :: "Heap \<Rightarrow> nat list \<Rightarrow> int \<Rightarrow> int \<Rightarrow> nat option" where
  "refAt h b r c =
     (if 0 \<le> r \<and> r < int (length b)
      then (let rw = rowObjs h ! (b ! nat r) in
            if 0 \<le> c \<and> c < int (length rw) then rw ! nat c else None)
      else None)"

definition setRef :: "Heap \<Rightarrow> nat list \<Rightarrow> int \<Rightarrow> int \<Rightarrow> nat option \<Rightarrow> Heap" where
  "setRef h b r c v =
     h\<lparr>rowObjs := (rowObjs h)[b ! nat r := setRow (rowObjs h ! (b ! nat r)) c v]\<rparr>"

text \<open>An assignment to fields of the piece object at address \<open>a\<close>.\<close>

definition updPiece :: "Heap \<Rightarrow> nat \<Rightarrow> (Piece \<Rightarrow> Piece) \<Rightarrow> Heap" where
  "updPiece h a f = h\<lparr>pieceObjs := (pieceObjs h)[a := f (pieceObjs h ! a)]\<rparr>"

text \<open>The state of values that a state of addresses stands for in a store.\<close>

definition absBoard :: "Heap \<Rightarrow> nat list \<Rightarrow> Board" where
  "absBoard h b = map (\<lambda>ra. map (map_option (\<lambda>a. pieceObjs h ! a)) (rowObjs h ! ra)) b"

definition absMove :: "Heap \<Rightarrow> MoveRef \<Rightarrow> Move" where
  "absMove h m =
     \<lparr>from = rfrom m, to = rto m, piece = pieceObjs h ! rpiece m,
      capturedPiece = map_option (\<lambda>a. pieceObjs h ! a) (rcapturedPiece m),
      isEnPassant = risEnPassant m, isCastling = risCastling m,
      promotionType = rpromotionType m\<rparr>"

definition absState :: "Heap \<Rightarrow> StateRef \<Rightarrow> GameState" where
  "absState h s =
     \<lparr>board = absBoard h (rboard s), currentTurn = rcurrentTurn s,
      moveHistory = map (absMove h) (rmoveHistory s),
      capturedPieces = map (\<lambda>a. pieceObjs h ! a) (rcapturedPieces s),
      isCheckFlag = risCheckFlag s, isCheckmateFlag = risCheckmateFlag s,
      isStalemateFlag = risStalemateFlag s, moveCount = rmoveCount s,
      lastMove = map_option (absMove h) (rlastMove s),
      isAIThinking = risAIThinking s, status = rstatus s, winner = rwinner s\<rparr>"

text \<open>\<open>applyMoveToState\<close> over the store; as in the model of values, a missing row under the
  write is outside what \<open>getValidMoves\<close> passes, and the state comes back unchanged.\<close>

definition applyMoveToStateH :: "Position \<Rightarrow> Position \<Rightarrow> StateRef \<Rightarrow> Heap \<Rightarrow> StateRef \<times> Heap" where
  "applyMoveToStateH fromPos toPos s h =
     (let (newBoard, h0) = copyRows h (rboard s) in
      case refAt h0 newBoard (row fromPos) (col fromPos) of
        None \<Rightarrow> (s, h0)
      | Some pa \<Rightarrow>
          if \<not> (0 \<le> row toPos \<and> row toPos < int (length newBoard)) then (s, h0)
          else
            (let h1 = setRef h0 newBoard (row toPos) (col toPos) (Some pa);
                 h2 = setRef h1 newBoard (row fromPos) (col fromPos) None;
                 h3 = updPiece h2 pa (\<lambda>p. p\<lparr>position := toPos\<rparr>)
             in (s\<lparr>rboard := newBoard\<rparr>, h3)))"

text \<open>\<open>executeMove\<close> over the store, statement by statement, in four groups of assignments:
  the removal of the pawn captured en passant, the relocation of the moving piece (at
  address \<open>pa\<close>), the relocation of the rook on castling, and the promotion.\<close>

definition removeEnPassantPawn :: "MoveRef \<Rightarrow> nat list \<Rightarrow> Heap \<Rightarrow> Heap" where
  "removeEnPassantPawn move newBoard h =
     (if risEnPassant move \<and> refAt h newBoard (row (rfrom move)) (col (rto move)) \<noteq> None
      then setRef h newBoard (row (rfrom move)) (col (rto move)) None else h)"

definition relocatePiece :: "MoveRef \<Rightarrow> nat list \<Rightarrow> nat \<Rightarrow> Heap \<Rightarrow> Heap" where
  "relocatePiece move newBoard pa h =
     (let h2 = setRef h newBoard (row (rto move)) (col (rto move)) (Some pa);
          h3 = setRef h2 newBoard (row (rfrom move)) (col (rfrom move)) None
      in updPiece h3 pa (\<lambda>p. p\<lparr>position := rto move, hasMoved := True\<rparr>))"

definition relocateRook :: "MoveRef \<Rightarrow> nat list \<Rightarrow> int \<Rightarrow> Heap \<Rightarrow> Heap" where
  "relocateRook move newBoard backRank h =
     (let isKingside = (col (rto move) = 6);
          rookCol = (if isKingside then 7 else 0);
          rookDest = (if isKingside then 5 else 3)
      in case (if risCastling move then refAt h newBoard backRank rookCol else None) of
           None \<Rightarrow> h
         | Some ra \<Rightarrow>
             updPiece
               (setRef (setRef h newBoard backRank rookDest (Some ra)) newBoard backRank rookCol None)
               ra (\<lambda>p. p\<lparr>position := \<lparr>row = backRank, col = rookDest\<rparr>, hasMoved := True\<rparr>))"

definition promotePiece :: "MoveRef \<Rightarrow> nat \<Rightarrow> Heap \<Rightarrow> Heap" where
  "promotePiece move pa h =
     (case rpromotionType move of
        None \<Rightarrow> h
      | Some pt \<Rightarrow> updPiece h pa (\<lambda>p. p\<lparr>type := promotedType pt\<rparr>))"

text \<open>The three status methods read the new state and write to nothing but the copies that
  \<open>applyMoveToState\<close> makes for them (\<open>applyMoveToStateH\<close> above); their results are taken
  from the model of values on the state that the new state stands for.\<close>

definition executeMoveH :: "MoveRef \<Rightarrow> StateRef \<Rightarrow> Heap \<Rightarrow> error + (StateRef \<times> Heap)" where
  "executeMoveH move s h =
     (let (newBoard, h0) = copyRows h (rboard s) in
      case refAt h0 newBoard (row (rfrom move)) (col (rfrom move)) of
        None \<Rightarrow> Inl NoPieceAtSource
      | Some pa \<Rightarrow>
          let targetPiece = refAt h0 newBoard (row (rto move)) (col (rto move));
              enPassantCell = refAt h0 newBoard (row (rfrom move)) (col (rto move));
              captured = (if risEnPassant move then enPassantCell else targetPiece);
              h1 = removeEnPassantPawn move newBoard h0
          in if \<not> (0 \<le> row (rto move) \<and> row (rto move) < int (length newBoard))
             then Inl TypeError
          else
            let h4 = relocatePiece move newBoard pa h1;
                backRank = (if color (pieceObjs h4 ! pa) = White then 7 else 0)
            in if risCastling move \<and> \<not> (0 \<le> backRank \<and> backRank < int (length newBoard))
               then Inl TypeError
            else
              let h5 = relocateRook move newBoard backRank h4;
                  h6 = promotePiece move pa h5;
                  newCapturedPieces =
                    rcapturedPieces s @ (case captured of None \<Rightarrow> [] | Some a \<Rightarrow> [a]);
                  newTurn = (if rcurrentTurn s = White then Black else White);
                  executedMove = move\<lparr>rcapturedPiece := captured\<rparr>;
                  newState = \<lparr>rboard = newBoard, rcurrentTurn = newTurn,
                              rmoveHistory = rmoveHistory s @ [executedMove],
                              rcapturedPieces = newCapturedPieces,
                              risCheckFlag = False, risCheckmateFlag = False,
                              risStalemateFlag = False,
                              rmoveCount = rmoveCount s + 1,
                              rlastMove = Some executedMove,
                              risAIThinking = None, rstatus = None, rwinner = None\<rparr>;
                  newState1 = newState\<lparr>risCheckFlag := isInCheck newTurn (absState h6 newState)\<rparr>;
                  newState2 = newState1\<lparr>risCheckmateFlag :=
                                isCheckmate newTurn (absState h6 newState1)\<rparr>;
                  newState3 = newState2\<lparr>risStalemateFlag := isStalemate (absState h6 newState2)\<rparr>
              in Inr (newState3, h6))"

text \<open>Every address that a state or a move holds names an object of the store.\<close>

definition wfMove :: "Heap \<Rightarrow> MoveRef \<Rightarrow> bool" where
  "wfMove h m \<longleftrightarrow>
     rpiece m < length (pieceObjs h) \<and>
     (case rcapturedPiece m of None \<Rightarrow> True | Some a \<Rightarrow> a < length (pieceObjs h))"

definition wfState :: "Heap \<Rightarrow> StateRef \<Rightarrow> bool" where
  "wfState h s \<longleftrightarrow>
     list_all (\<lambda>ra. ra < length (rowObjs h) \<and>
                 list_all (\<lambda>cell. case cell of None \<Rightarrow> True | Some a \<Rightarrow> a < length (pieceObjs h))
                   (rowObjs h ! ra))
       (rboard s) \<and>
     list_all (wfMove h) (rmoveHistory s) \<and>
     list_all (\<lambda>a. a < length (pieceObjs h)) (rcapturedPieces s) \<and>
     (case rlastMove s of None \<Rightarrow> True | Some m \<Rightarrow> wfMove h m)"

text \<open>The store \<open>h'\<close> extends \<open>h\<close>: every object of \<open>h\<close> is in \<open>h'\<close> at its address, as it was.\<close>

definition extends :: "Heap \<Rightarrow> Heap \<Rightarrow> bool" where
  "extends h h' \<longleftrightarrow>
     take (length (pieceObjs h)) (pieceObjs h') = pieceObjs h \<and>
     take (length (rowObjs h)) (rowObjs h') = rowObjs h"

text \<open>The rows of the board \<open>b\<close> and the pieces in their cells were allocated after \<open>h\<close>.\<close>

definition ownedBoard :: "Heap \<Rightarrow> Heap \<Rightarrow> nat list \<Rightarrow> bool" where
  "ownedBoard h h' b \<longleftrightarrow>
     (\<forall>ra \<in> set b. length (rowObjs h) \<le> ra \<and> ra < length (rowObjs h') \<and>
        (\<forall>a. Some a \<in> set (rowObjs h' ! ra) \<longrightarrow>
              length (pieceObjs h) \<le> a \<and> a < length (pieceObjs h')))"

text \<open>The cells of a board of addresses, row by row.\<close>

definition refBoard :: "Heap \<Rightarrow> nat list \<Rightarrow> nat option list list" where
  "refBoard h b = map (\<lambda>ra. rowObjs h ! ra) b"

definition wfCells :: "Heap \<Rightarrow> nat option list \<Rightarrow> bool" where
  "wfCells h cells \<longleftrightarrow>
     list_all (\<lambda>cell. case cell of None \<Rightarrow> True | Some a \<Rightarrow> a < length (pieceObjs h)) cells"

text \<open>The store and the state of addresses for \<open>castlingReady\<close>, and the castling move.\<close>

definition castlingReadyStore :: Heap where
  "castlingReadyStore =
     \<lparr>pieceObjs = [mkPiece King White 7 4 False, mkPiece Rook White 7 7 False,
                   mkPiece King Black 0 0 True],
      rowObjs = [Some 2 # replicate 7 None, replicate 8 None, replicate 8 None,
                 replicate 8 None, replicate 8 None, replicate 8 None, replicate 8 None,
                 [None, None, None, None, Some 0, None, None, Some 1]]\<rparr>"

definition castlingReadyRef :: StateRef where
  "castlingReadyRef =
     \<lparr>rboard = [0, 1, 2, 3, 4, 5, 6, 7], rcurrentTurn = White, rmoveHistory = [],
      rcapturedPieces = [], risCheckFlag = False, risCheckmateFlag = False,
      risStalemateFlag = False, rmoveCount = 0, rlastMove = None,
      risAIThinking = None, rstatus = None, rwinner = None\<rparr>"

definition castleKingsideRef :: MoveRef where
  "castleKingsideRef =
     \<lparr>rfrom = \<lparr>row = 7, col = 4\<rparr>, rto = \<lparr>row = 7, col = 6\<rparr>, rpiece = 0,
      rcapturedPiece = None, risEnPassant = False, risCastling = True,
      rpromotionType = None\<rparr>"

text \<open>The board of values that a board of addresses stands for under a list of piece
  objects; and a board of addresses in which no address stands in two cells.\<close>

definition derefBoard :: "Piece list \<Rightarrow> nat option list list \<Rightarrow> Board" where
  "derefBoard ps rb = map (map (map_option (\<lambda>a. ps ! a))) rb"

definition injBoard :: "nat option list list \<Rightarrow> bool" where
  "injBoard rb \<longleftrightarrow>
     (\<forall>r c r' c' a. cellAt rb r c = Some a \<and> cellAt rb r' c' = Some a \<longrightarrow> r = r' \<and> c = c')"

text \<open>A cell of one row: \<open>rw[c]\<close>.\<close>

definition rowAt :: "'a option list \<Rightarrow> int \<Rightarrow> 'a option" where
  "rowAt rw c = (if 0 \<le> c \<and> c < int (length rw) then rw ! nat c else None)"

text \<open>The parts of \<open>executeMove\<close> in the model of values, named for the comparison with the
  store: the moved piece, the board after the en-passant removal, after the relocation of
  the piece and after the relocation of the rook, the captured piece, and the new state.\<close>

definition movedPiece :: "Move \<Rightarrow> Piece \<Rightarrow> Piece" where
  "movedPiece move p0 =
     p0\<lparr>type := (case promotionType move of None \<Rightarrow> type p0 | Some pt \<Rightarrow> promotedType pt),
        position := to move, hasMoved := True\<rparr>"

definition boardAfterCapture :: "Move \<Rightarrow> Board \<Rightarrow> Board" where
  "boardAfterCapture move b0 =
     (if isEnPassant move \<and> cellAt b0 (row (from move)) (col (to move)) \<noteq> None
      then setCell b0 (row (from move)) (col (to move)) None else b0)"

definition boardAfterRelocation :: "Move \<Rightarrow> Piece \<Rightarrow> Board \<Rightarrow> Board" where
  "boardAfterRelocation move p0 b1 =
     setCell (setCell b1 (row (to move)) (col (to move)) (Some (movedPiece move p0)))
       (row (from move)) (col (from move)) None"

definition castlingRook :: "Move \<Rightarrow> Piece \<Rightarrow> Board \<Rightarrow> Piece option" where
  "castlingRook move p0 b3 =
     map_option
       (\<lambda>rk. rk\<lparr>position := \<lparr>row = (if color p0 = White then 7 else 0),
                               col = (if col (to move) = 6 then 5 else 3)\<rparr>,
               hasMoved := True\<rparr>)
       (if isCastling move
        then cellAt b3 (if color p0 = White then 7 else 0) (if col (to move) = 6 then 7 else 0)
        else None)"

definition boardAfterCastling :: "Move \<Rightarrow> Piece \<Rightarrow> Board \<Rightarrow> Board" where
  "boardAfterCastling move p0 b3 =
     (case castlingRook move p0 b3 of
        None \<Rightarrow> b3
      | Some rk \<Rightarrow>
          setCell
            (setCell b3 (if color p0 = White then 7 else 0)
               (if col (to move) = 6 then 5 else 3) (Some rk))
            (if color p0 = White then 7 else 0) (if col (to move) = 6 then 7 else 0) None)"

definition capturedOf :: "Move \<Rightarrow> Piece \<Rightarrow> Board \<Rightarrow> Board \<Rightarrow> Piece option" where
  "capturedOf move p0 b0 b3 =
     (let rookIsMover = (isCastling move \<and> \<not> col (to move) = 6 \<and>
                         row (to move) = (if color p0 = White then 7 else 0) \<and>
                         col (to move) = 0 \<and> \<not> positionsEqual (from move) (to move));
          finalMover = (if rookIsMover then castlingRook move p0 b3
                        else Some (movedPiece move p0));
          moverCaptured = (if isEnPassant move then col (to move) = col (from move)
                           else positionsEqual (to move) (from move))
      in if moverCaptured then finalMover
         else if isEnPassant move then cellAt b0 (row (from move)) (col (to move))
         else cellAt b0 (row (to move)) (col (to move)))"

definition stateAfter :: "Move \<Rightarrow> GameState \<Rightarrow> Board \<Rightarrow> Piece option \<Rightarrow> GameState" where
  "stateAfter move s b4 captured =
     (let newTurn = (if currentTurn s = White then Black else White);
          executedMove = move\<lparr>capturedPiece := captured\<rparr>;
          newState = \<lparr>board = b4, currentTurn = newTurn,
                      moveHistory = moveHistory s @ [executedMove],
                      capturedPieces =
                        capturedPieces s @ (case captured of None \<Rightarrow> [] | Some cp \<Rightarrow> [cp]),
                      isCheckFlag = False, isCheckmateFlag = False, isStalemateFlag = False,
                      moveCount = moveCount s + 1, lastMove = Some executedMove,
                      isAIThinking = None, status = None, winner = None\<rparr>;
          newState1 = newState\<lparr>isCheckFlag := isInCheck newTurn newState\<rparr>;
          newState2 = newState1\<lparr>isCheckmateFlag := isCheckmate newTurn newState1\<rparr>
      in newState2\<lparr>isStalemateFlag := isStalemate newState2\<rparr>)"

text \<open>The new state of \<open>executeMoveH\<close>, from the store after the assignments.\<close>

definition stateAfterH :: "MoveRef \<Rightarrow> StateRef \<Rightarrow> nat list \<Rightarrow> nat option \<Rightarrow> Heap \<Rightarrow> StateRef" where
  "stateAfterH move s newBoard captured h6 =
     (let newTurn = (if rcurrentTurn s = White then Black else White);
          executedMove = move\<lparr>rcapturedPiece := captured\<rparr>;
          newState = \<lparr>rboard = newBoard, rcurrentTurn = newTurn,
                      rmoveHistory = rmoveHistory s @ [executedMove],
                      rcapturedPieces =
                        rcapturedPieces s @ (case captured of None \<Rightarrow> [] | Some a \<Rightarrow> [a]),
                      risCheckFlag = False, risCheckmateFlag = False,
                      risStalemateFlag = False,
                      rmoveCount = rmoveCount s + 1,
                      rlastMove = Some executedMove,
                      risAIThinking = None, rstatus = None, rwinner = None\<rparr>;
          newState1 = newState\<lparr>risCheckFlag := isInCheck newTurn (absState h6 newState)\<rparr>;
          newState2 = newState1\<lparr>risCheckmateFlag :=
                        isCheckmate newTurn (absState h6 newState1)\<rparr>
      in newState2\<lparr>risStalemateFlag := isStalemate (absState h6 newState2)\<rparr>)"

section \<open>Facts about board access\<close>

lemma anyOf_iff: "anyOf P xs \<longleftrightarrow> (\<exists>x\<in>set xs. P x)"
  by (induction xs) auto

lemma positionsEqual_iff: "positionsEqual (a::Position) b \<longleftrightarrow> a = b"
  by (cases a, cases b) (simp add: positionsEqual_def)

lemma mem_indices: "r \<in> set indices \<longleftrightarrow> 0 \<le> r \<and> r \<le> 7"
  unfolding indices_def by (simp; arith)

lemma set_allSquares: "set allSquares = {pos. isPositionOnBoard pos}"
proof -
  have "pos \<in> set allSquares \<longleftrightarrow> isPositionOnBoard pos" for pos :: Position
  proof -
    have "pos \<in> set allSquares \<longleftrightarrow> row pos \<in> set indices \<and> col pos \<in> set indices"
      unfolding allSquares_def by (cases pos) auto
    then show ?thesis
      by (simp add: mem_indices isPositionOnBoard_def)
  qed
  then show ?thesis by blast
qed

lemma cellAt_Some_inside:
  assumes "isValidBoard b" "cellAt b r c = Some p"
  shows "0 \<le> r \<and> r \<le> 7 \<and> 0 \<le> c \<and> c \<le> 7"
proof -
  from assms(2) have r: "0 \<le> r" "r < int (length b)"
    by (auto simp: cellAt_def split: if_splits)
  then have "nat r < length b" by simp
  with assms(1) have len: "length (b ! nat r) = 8"
    by (simp add: isValidBoard_def list_all_length)
  from assms(2) r have "0 \<le> c \<and> c < int (length (b ! nat r))"
    by (auto simp: cellAt_def Let_def split: if_splits)
  with len r assms(1) show ?thesis by (simp add: isValidBoard_def)
qed

lemma pieceAt_Some_onBoard:
  "isValidBoard (board s) \<Longrightarrow> pieceAt s pos = Some p \<Longrightarrow> isPositionOnBoard pos"
  using cellAt_Some_inside[of "board s" "row pos" "col pos" p]
  by (simp add: pieceAt_def isPositionOnBoard_def)

lemma length_setRow: "0 \<le> c \<Longrightarrow> c < int (length rw) \<Longrightarrow> length (setRow rw c v) = length rw"
  by (simp add: setRow_def)

lemma nth_setRow:
  "(if 0 \<le> c' \<and> c' < int (length (setRow rw c v)) then setRow rw c v ! nat c' else None) =
   (if c' = c \<and> 0 \<le> c then v
    else if 0 \<le> c' \<and> c' < int (length rw) then rw ! nat c' else None)"
proof (cases "c < 0")
  case True
  then show ?thesis by (auto simp: setRow_def)
next
  case nonneg: False
  show ?thesis
  proof (cases "c < int (length rw)")
    case True
    with nonneg show ?thesis
      by (auto simp: setRow_def nth_list_update)
  next
    case False
    with nonneg have eq: "setRow rw c v = rw @ replicate (nat c - length rw) None @ [v]"
      by (simp add: setRow_def)
    from False nonneg have len: "int (length (setRow rw c v)) = c + 1"
      unfolding eq by simp
    show ?thesis
    proof (cases "0 \<le> c' \<and> c' \<le> c")
      case out: False
      with len False nonneg show ?thesis by auto
    next
      case inr: True
      consider "c' < int (length rw)" | "int (length rw) \<le> c'" "c' < c" | "c' = c"
        using inr by linarith
      then show ?thesis
      proof cases
        case 1
        with inr len nonneg False show ?thesis
          unfolding eq by (auto simp: nth_append)
      next
        case 2
        then have "nat c' - length rw < nat c - length rw" using inr by linarith
        with 2 inr len nonneg False show ?thesis
          unfolding eq by (auto simp: nth_append)
      next
        case 3
        with inr len nonneg False show ?thesis
          unfolding eq by (auto simp: nth_append)
      qed
    qed
  qed
qed

lemma cellAt_setCell:
  assumes "hasRow b r"
  shows "cellAt (setCell b r c v) r' c' =
         (if r' = r \<and> c' = c \<and> 0 \<le> c then v else cellAt b r' c')"
proof (cases "r' = r")
  case True
  from assms have "nat r < length b" unfolding hasRow_def by linarith
  then have row: "setCell b r c v ! nat r = setRow (b ! nat r) c v"
    by (simp add: setCell_def)
  have len: "length (setCell b r c v) = length b" by (simp add: setCell_def)
  from assms have "0 \<le> r \<and> r < int (length b)" by (simp add: hasRow_def)
  with True show ?thesis
    using nth_setRow[of c' "b ! nat r" c v]
    by (simp add: cellAt_def Let_def row len)
next
  case False
  with assms show ?thesis
    by (auto simp: cellAt_def setCell_def hasRow_def Let_def nth_list_update)
qed

lemma hasRow_setCell: "hasRow (setCell b r c v) r' = hasRow b r'"
  by (simp add: hasRow_def setCell_def)

lemma isValidBoard_setCell:
  assumes "isValidBoard b" "0 \<le> c" "c \<le> 7"
  shows "isValidBoard (setCell b r c v)"
proof -
  have "length (setCell b r c v ! n) = 8" if "n < 8" for n
  proof (cases "n = nat r")
    case True
    from assms(1) that have "length (b ! n) = 8"
      by (simp add: isValidBoard_def list_all_length)
    with True assms that show ?thesis
      by (simp add: setCell_def isValidBoard_def setRow_def)
  next
    case False
    with assms(1) that show ?thesis
      by (simp add: setCell_def isValidBoard_def list_all_length)
  qed
  with assms(1) show ?thesis
    by (simp add: isValidBoard_def list_all_length setCell_def)
qed

section \<open>Check, checkmate and stalemate\<close>

lemma hasAnyLegalMoves_iff: "hasAnyLegalMoves c s \<longleftrightarrow> getAllLegalMoves c s \<noteq> []"
  unfolding hasAnyLegalMoves_def getAllLegalMoves_def anyOf_iff
  by (auto split: option.splits)





section \<open>A side without a king\<close>

lemma findKing_None_iff:
  "findKing c s = None \<longleftrightarrow> (\<forall>sq. isPositionOnBoard sq \<longrightarrow> \<not> kingAt c s sq)"
  by (simp add: findKing_def find_None_iff set_allSquares kingAt_def)

lemma pieceAt_applyMoveToState:
  assumes "pieceAt s fromPos = Some p" "hasRow (board s) (row toPos)"
  shows "pieceAt (applyMoveToState fromPos toPos s) sq =
           (if row sq = row fromPos \<and> col sq = col fromPos then None
            else if row sq = row toPos \<and> col sq = col toPos \<and> 0 \<le> col toPos
            then Some (p\<lparr>position := toPos\<rparr>)
            else pieceAt s sq)"
proof -
  from assms(1) have fr: "hasRow (board s) (row fromPos)" "0 \<le> col fromPos"
    by (auto simp: pieceAt_def cellAt_def hasRow_def Let_def split: if_splits)
  then have "hasRow (setCell (board s) (row toPos) (col toPos) (Some (p\<lparr>position := toPos\<rparr>)))
               (row fromPos)"
    by (simp add: hasRow_setCell)
  with assms fr show ?thesis
    by (simp add: applyMoveToState_def pieceAt_def cellAt_setCell)
qed

lemma applyMoveToState_noPiece:
  "pieceAt s fromPos = None \<Longrightarrow> applyMoveToState fromPos toPos s = s"
  by (simp add: applyMoveToState_def)

lemma applyMoveToState_noRow:
  "\<not> hasRow (board s) (row toPos) \<Longrightarrow> applyMoveToState fromPos toPos s = s"
  by (simp add: applyMoveToState_def split: option.splits)

lemma findKing_applyMoveToState_None:
  assumes valid: "isValidBoard (board s)" and none: "findKing c s = None"
  shows "findKing c (applyMoveToState fromPos toPos s) = None"
proof (cases "pieceAt s fromPos")
  case None
  with none show ?thesis by (simp add: applyMoveToState_noPiece)
next
  case (Some p)
  show ?thesis
  proof (cases "hasRow (board s) (row toPos)")
    case False
    with none show ?thesis by (simp add: applyMoveToState_noRow)
  next
    case True
    from valid Some have "isPositionOnBoard fromPos" by (rule pieceAt_Some_onBoard)
    with none Some have notKing: "\<not> (type p = King \<and> color p = c)"
      by (auto simp: findKing_None_iff kingAt_def)
    have "\<not> kingAt c (applyMoveToState fromPos toPos s) sq" if "isPositionOnBoard sq" for sq
    proof -
      from none that have "\<not> kingAt c s sq" by (simp add: findKing_None_iff)
      with notKing show ?thesis
        by (simp add: kingAt_def pieceAt_applyMoveToState[OF Some True])
    qed
    then show ?thesis by (simp add: findKing_None_iff)
  qed
qed

lemma getAllLegalMoves_Nil_iff:
  "getAllLegalMoves c s = [] \<longleftrightarrow>
     (\<forall>sq p. isPositionOnBoard sq \<and> pieceAt s sq = Some p \<and> color p = c \<longrightarrow> getValidMoves sq s = [])"
  by (auto simp: getAllLegalMoves_def set_allSquares split: option.splits)

lemma isValidBoard_placePieces_aux:
  "isValidBoard b \<Longrightarrow> list_all (\<lambda>p. isPositionOnBoard (position p)) ps \<Longrightarrow>
   isValidBoard (foldl (\<lambda>b p. setCell b (row (position p)) (col (position p)) (Some p)) b ps)"
  by (induction ps arbitrary: b) (auto simp: isValidBoard_setCell isPositionOnBoard_def)

lemma isValidBoard_emptyBoard: "isValidBoard emptyBoard"
  by (simp add: isValidBoard_def emptyBoard_def list_all_iff)

lemma isValidBoard_mkState:
  "list_all (\<lambda>p. isPositionOnBoard (position p)) ps \<Longrightarrow> isValidBoard (board (mkState ps turn lm))"
  by (simp add: mkState_def placePieces_def isValidBoard_placePieces_aux isValidBoard_emptyBoard)

text \<open>Claim C10. In a state whose board has no king of colour \<open>c\<close>: \<open>c\<close> is not in
  check; when \<open>c\<close> is to move, \<open>wouldLeaveKingInCheck\<close> holds of every move onto a row of the
  board; every piece of \<open>c\<close> has no valid move and \<open>getAllLegalMoves\<close> is empty; and when
  \<open>c\<close> is to move the state is a stalemate.\<close>

theorem kingless_side_has_no_moves:
  assumes "isValidBoard (board s)" and "findKing c s = None"
  shows "\<not> isInCheck c s \<and>
         (c = currentTurn s \<longrightarrow> (\<forall>fromPos toPos. hasRow (board s) (row toPos) \<longrightarrow>
              wouldLeaveKingInCheck fromPos toPos s)) \<and>
         (\<forall>pos p. pieceAt s pos = Some p \<and> color p = c \<longrightarrow> getValidMoves pos s = []) \<and>
         getAllLegalMoves c s = [] \<and>
         (c = currentTurn s \<longrightarrow> isStalemate s)"
proof -
  have check: "\<not> isInCheck c s"
    using assms(2) by (simp add: isInCheck_def)
  have leave: "wouldLeaveKingInCheck fromPos toPos s" if "c = currentTurn s" for fromPos toPos
    using findKing_applyMoveToState_None[OF assms, of fromPos toPos] that
    by (simp add: wouldLeaveKingInCheck_def)
  have valid: "getValidMoves pos s = []" if "pieceAt s pos = Some p" "color p = c" for pos p
    using that leave by (cases "c = currentTurn s") (auto simp: getValidMoves_def)
  have all: "getAllLegalMoves c s = []"
    using valid by (simp add: getAllLegalMoves_Nil_iff)
  have stale: "isStalemate s" if "c = currentTurn s"
    using that check all by (simp add: isStalemate_def hasAnyLegalMoves_iff)
  from check leave valid all stale show ?thesis by blast
qed

theorem kingless_side_has_no_moves_witness:
  "isValidBoard (board kinglessWhite) \<and> findKing White kinglessWhite = None \<and>
   \<not> isInCheck White kinglessWhite \<and>
   hasRow (board kinglessWhite) 5 \<and>
   wouldLeaveKingInCheck \<lparr>row = 6, col = 0\<rparr> \<lparr>row = 5, col = 0\<rparr> kinglessWhite \<and>
   pieceAt kinglessWhite \<lparr>row = 7, col = 3\<rparr> = Some (mkPiece Queen White 7 3 False) \<and>
   getValidMoves \<lparr>row = 7, col = 3\<rparr> kinglessWhite = [] \<and>
   getAllLegalMoves White kinglessWhite = [] \<and>
   isStalemate kinglessWhite"
proof -
  have v: "isValidBoard (board kinglessWhite)"
    unfolding kinglessWhite_def
    by (rule isValidBoard_mkState) (simp add: mkPiece_def isPositionOnBoard_def)
  have k: "findKing White kinglessWhite = None" by code_simp
  have t: "currentTurn kinglessWhite = White" by (simp add: kinglessWhite_def mkState_def)
  have q: "pieceAt kinglessWhite \<lparr>row = 7, col = 3\<rparr> = Some (mkPiece Queen White 7 3 False)"
    by code_simp
  have c: "color (mkPiece Queen White 7 3 False) = White" by (simp add: mkPiece_def)
  have r: "hasRow (board kinglessWhite) (row \<lparr>row = 5, col = 0\<rparr>)"
    using v by (simp add: hasRow_def isValidBoard_def)
  show ?thesis
    using kingless_side_has_no_moves[OF v k] v k t q c r by auto
qed

section \<open>En passant\<close>

lemma if_chain4:
  "(if P1 then [] else if P2 then [] else if P3 then [] else if P4 then x else []) =
   (if \<not> P1 \<and> \<not> P2 \<and> \<not> P3 \<and> P4 then x else [])"
  by simp

lemma getEnPassantMoves_char:  "getEnPassantMoves pawn s =
     (case lastMove s of
        None \<Rightarrow> []
      | Some lm \<Rightarrow>
          if row (position pawn) = (if color pawn = White then 3 else 4) \<and>
             type (piece lm) = Pawn \<and> color (piece lm) \<noteq> color pawn \<and>
             \<bar>row (to lm) - row (from lm)\<bar> = 2 \<and>
             \<bar>col (to lm) - col (position pawn)\<bar> = 1 \<and>
             row (to lm) = row (position pawn)
          then [\<lparr>row = row (position pawn) + (if color pawn = White then - 1 else 1),
                 col = col (to lm)\<rparr>]
          else [])"
proof (cases "lastMove s")
  case None
  then show ?thesis by (simp add: getEnPassantMoves_def)
next
  case (Some lm)
  have "getEnPassantMoves pawn s =
      (if row (position pawn) \<noteq> (if color pawn = White then 3 else 4) then []
       else if type (piece lm) \<noteq> Pawn \<or> color (piece lm) = color pawn then []
       else if \<bar>row (to lm) - row (from lm)\<bar> \<noteq> 2 then []
       else if \<bar>col (to lm) - col (position pawn)\<bar> = 1 \<and> row (to lm) = row (position pawn)
       then [\<lparr>row = row (position pawn) + (if color pawn = White then - 1 else 1),
                 col = col (to lm)\<rparr>]
       else [])"
    unfolding getEnPassantMoves_def Let_def Some option.case ..
  also have "\<dots> = (if row (position pawn) = (if color pawn = White then 3 else 4) \<and>
             type (piece lm) = Pawn \<and> color (piece lm) \<noteq> color pawn \<and>
             \<bar>row (to lm) - row (from lm)\<bar> = 2 \<and>
             \<bar>col (to lm) - col (position pawn)\<bar> = 1 \<and>
             row (to lm) = row (position pawn)
          then [\<lparr>row = row (position pawn) + (if color pawn = White then - 1 else 1),
                 col = col (to lm)\<rparr>]
          else [])"
    unfolding if_chain4 by (rule if_cong) blast+
  finally show ?thesis unfolding Some option.case .
qed

lemma getPawnMoves_ends_with_enPassant: "\<exists>others. getPawnMoves pawn s = others @ getEnPassantMoves pawn s"
  unfolding getPawnMoves_def Let_def append_assoc[symmetric] by (rule exI) (rule refl)


text \<open>Claim C6. The en-passant destinations of a pawn: there is one exactly when the pawn
  stands on row 3 (white) or row 4 (black) and the last move is a pawn move of the other
  colour over two rows that ended on the pawn's row in a neighbouring column; it is the
  square one row ahead of the pawn in the column where that move ended; and the pawn's
  pseudo-legal moves end with these destinations.\<close>

theorem enPassant_gating:
  "getEnPassantMoves pawn s =
     (case lastMove s of
        None \<Rightarrow> []
      | Some lm \<Rightarrow>
          if row (position pawn) = (if color pawn = White then 3 else 4) \<and>
             type (piece lm) = Pawn \<and> color (piece lm) \<noteq> color pawn \<and>
             \<bar>row (to lm) - row (from lm)\<bar> = 2 \<and>
             \<bar>col (to lm) - col (position pawn)\<bar> = 1 \<and>
             row (to lm) = row (position pawn)
          then [\<lparr>row = row (position pawn) + (if color pawn = White then - 1 else 1),
                 col = col (to lm)\<rparr>]
          else []) \<and>
   (\<exists>others. getPawnMoves pawn s = others @ getEnPassantMoves pawn s) \<and>
   getPseudoLegalMoves (pawn\<lparr>type := Pawn\<rparr>) s = getPawnMoves (pawn\<lparr>type := Pawn\<rparr>) s"
  using getEnPassantMoves_char[of pawn s] getPawnMoves_ends_with_enPassant[of pawn s]
  by (simp add: getPseudoLegalMoves_def)

theorem enPassant_gating_witness:
  "getEnPassantMoves (mkPiece Pawn White 3 1 True) enPassantPin = [\<lparr>row = 2, col = 2\<rparr>] \<and>
   getEnPassantMoves (mkPiece Pawn White 3 1 True) queenStalemate = [] \<and>
   \<lparr>row = 2, col = 2\<rparr> \<in> set (getPawnMoves (mkPiece Pawn White 3 1 True) enPassantPin)"
proof -
  have lm: "lastMove enPassantPin = Some blackDoubleStep" "lastMove queenStalemate = None"
    by (simp_all add: enPassantPin_def queenStalemate_def mkState_def)
  have a: "getEnPassantMoves (mkPiece Pawn White 3 1 True) enPassantPin = [\<lparr>row = 2, col = 2\<rparr>]"
    using enPassant_gating[of "mkPiece Pawn White 3 1 True" enPassantPin] lm
    by (simp add: mkPiece_def blackDoubleStep_def plainMove_def)
  have b: "getEnPassantMoves (mkPiece Pawn White 3 1 True) queenStalemate = []"
    using enPassant_gating[of "mkPiece Pawn White 3 1 True" queenStalemate] lm by simp
  from enPassant_gating[of "mkPiece Pawn White 3 1 True" enPassantPin]
  obtain others where
    "getPawnMoves (mkPiece Pawn White 3 1 True) enPassantPin =
       others @ getEnPassantMoves (mkPiece Pawn White 3 1 True) enPassantPin"
    by blast
  with a b show ?thesis by simp
qed

section \<open>The legality filter and en passant\<close>

text \<open>Claim C1. In \<open>enPassantPin\<close> the en-passant capture b5 takes c6 is among the valid moves
  of the white pawn and passes \<open>isValidMove\<close>: \<open>applyMoveToState\<close> leaves the captured pawn
  on c5, where it still shields the king from the rook. \<open>executeMove\<close> removes that pawn,
  and in the state it returns the white king is attacked.\<close>

theorem enPassant_capture_exposes_king:
  "\<lparr>row = 2, col = 2\<rparr> \<in> set (getValidMoves \<lparr>row = 3, col = 1\<rparr> enPassantPin) \<and>
   isValidMove enPassantCapture enPassantPin \<and>
   \<not> isInCheck White enPassantPin \<and>
   (case executeMove enPassantCapture enPassantPin of
      Inl e \<Rightarrow> False
    | Inr s' \<Rightarrow> findKing White s' = Some \<lparr>row = 3, col = 0\<rparr> \<and>
               isPositionUnderAttack \<lparr>row = 3, col = 0\<rparr> White s' \<and> isInCheck White s')"
  by code_simp

theorem enPassant_capture_exposes_king_witness:
  "\<exists>s'. executeMove enPassantCapture enPassantPin = Inr s' \<and> isInCheck White s' \<and>
        isValidMove enPassantCapture enPassantPin"
  using enPassant_capture_exposes_king by (auto split: sum.splits)

section \<open>What counts as attacked\<close>

lemma isPositionUnderAttack_iff:
  "isPositionUnderAttack pos byColor s \<longleftrightarrow>
     (\<exists>sq p. isPositionOnBoard sq \<and> pieceAt s sq = Some p \<and> color p = opponentOf byColor \<and>
             pos \<in> set (getPseudoLegalMovesForAttack p s))"
  unfolding isPositionUnderAttack_def Let_def anyOf_iff set_allSquares
  by (auto simp: positionsEqual_iff split: option.splits)

lemma forwardOne_in_getPawnMoves:
  assumes "isPositionOnBoard \<lparr>row = row (position p) + (if color p = White then - 1 else 1),
                              col = col (position p)\<rparr>"
    and "pieceAt s \<lparr>row = row (position p) + (if color p = White then - 1 else 1),
                    col = col (position p)\<rparr> = None"
  shows "\<lparr>row = row (position p) + (if color p = White then - 1 else 1), col = col (position p)\<rparr>
           \<in> set (getPawnMoves p s)"
  using assms unfolding getPawnMoves_def Let_def by simp

lemma forwardTwo_in_getPawnMoves:
  assumes "isPositionOnBoard \<lparr>row = row (position p) + (if color p = White then - 1 else 1),
                              col = col (position p)\<rparr>"
    and "pieceAt s \<lparr>row = row (position p) + (if color p = White then - 1 else 1),
                    col = col (position p)\<rparr> = None"
    and "\<not> hasMoved p"
    and "isPositionOnBoard \<lparr>row = row (position p) + (if color p = White then - 1 else 1) * 2,
                              col = col (position p)\<rparr>"
    and "pieceAt s \<lparr>row = row (position p) + (if color p = White then - 1 else 1) * 2,
                    col = col (position p)\<rparr> = None"
  shows "\<lparr>row = row (position p) + (if color p = White then - 1 else 1) * 2,
          col = col (position p)\<rparr> \<in> set (getPawnMoves p s)"
  using assms unfolding getPawnMoves_def Let_def by simp

lemma empty_diagonal_in_getPawnMoves:
  assumes "pieceAt s \<lparr>row = r, col = col (position p) + dc\<rparr> = None" and "dc \<noteq> 0"
  shows "\<lparr>row = r, col = col (position p) + dc\<rparr> \<in> set (getPawnMoves p s) \<longleftrightarrow>
         \<lparr>row = r, col = col (position p) + dc\<rparr> \<in> set (getEnPassantMoves p s)"
  using assms unfolding getPawnMoves_def Let_def by auto

lemma attacked_king_no_castling:
  "isPositionUnderAttack (position k) (color k) s \<Longrightarrow> getCastlingMoves k s = []"
  by (simp add: getCastlingMoves_def)

lemma attacked_transit_no_castling:
  assumes "isPositionUnderAttack \<lparr>row = (if color k = White then 7 else 0), col = c\<rparr> (color k) s"
  shows "c = 5 \<longrightarrow> \<lparr>row = (if color k = White then 7 else 0), col = 6\<rparr> \<notin> set (getCastlingMoves k s)"
    and "c = 3 \<longrightarrow> \<lparr>row = (if color k = White then 7 else 0), col = 2\<rparr> \<notin> set (getCastlingMoves k s)"
  using assms unfolding getCastlingMoves_def Let_def by (auto split: option.splits)

lemma pawn_moves_for_attack:
  "type p = Pawn \<Longrightarrow> getPseudoLegalMovesForAttack p s = getPawnMoves p s \<and>
                      getPseudoLegalMoves p s = getPawnMoves p s"
  by (simp add: getPseudoLegalMovesForAttack_def getPseudoLegalMoves_def)

text \<open>The claim as written fails where en passant is available: e3 is empty and diagonally
  ahead of the black pawn on d4, and it counts as attacked.\<close>

theorem empty_diagonal_attacked_counterexample:
  "pieceAt pawnBesidePawn \<lparr>row = 4, col = 3\<rparr> = Some (mkPiece Pawn Black 4 3 True) \<and>
   pieceAt pawnBesidePawn \<lparr>row = 5, col = 4\<rparr> = None \<and>
   isPositionUnderAttack \<lparr>row = 5, col = 4\<rparr> White pawnBesidePawn"
  by code_simp

text \<open>Claim C9, amended. Let \<open>p\<close> be a pawn of the colour opposing \<open>byColor\<close> that stands on the
  board, and \<open>d\<close> its direction. For attack detection \<open>p\<close> has its full pseudo-legal move set,
  and every square of it counts as attacked. The empty square straight ahead of \<open>p\<close> counts
  as attacked, and so does the second one when \<open>p\<close> has not moved and both are empty. An
  empty square diagonally ahead of \<open>p\<close> is among its moves exactly when it is an en-passant
  destination of \<open>p\<close>. Castling is refused on the same test: no castling move when the
  king's square counts as attacked, none to column 6 or 2 when the transit square in column
  5 or 3 does.\<close>

theorem pawn_attack_coverage:
  assumes "type p = Pawn" and "isPositionOnBoard sq" and "pieceAt s sq = Some p"
    and "color p = opponentOf byColor" and "d = (if color p = White then - 1 else 1)"
  shows "getPseudoLegalMovesForAttack p s = getPseudoLegalMoves p s \<and>
    (\<forall>pos \<in> set (getPseudoLegalMoves p s). isPositionUnderAttack pos byColor s) \<and>
    (isPositionOnBoard \<lparr>row = row (position p) + d, col = col (position p)\<rparr> \<and>
     pieceAt s \<lparr>row = row (position p) + d, col = col (position p)\<rparr> = None \<longrightarrow>
       isPositionUnderAttack \<lparr>row = row (position p) + d, col = col (position p)\<rparr> byColor s) \<and>
    (isPositionOnBoard \<lparr>row = row (position p) + d, col = col (position p)\<rparr> \<and>
     pieceAt s \<lparr>row = row (position p) + d, col = col (position p)\<rparr> = None \<and>
     \<not> hasMoved p \<and>
     isPositionOnBoard \<lparr>row = row (position p) + d * 2, col = col (position p)\<rparr> \<and>
     pieceAt s \<lparr>row = row (position p) + d * 2, col = col (position p)\<rparr> = None \<longrightarrow>
       isPositionUnderAttack \<lparr>row = row (position p) + d * 2, col = col (position p)\<rparr> byColor s) \<and>
    (dc \<noteq> 0 \<and> pieceAt s \<lparr>row = row (position p) + d, col = col (position p) + dc\<rparr> = None \<longrightarrow>
       (\<lparr>row = row (position p) + d, col = col (position p) + dc\<rparr>
          \<in> set (getPseudoLegalMovesForAttack p s) \<longleftrightarrow>
        \<lparr>row = row (position p) + d, col = col (position p) + dc\<rparr>
          \<in> set (getEnPassantMoves p s))) \<and>
    (color k = byColor \<and> isPositionUnderAttack (position k) byColor s \<longrightarrow>
       getCastlingMoves k s = []) \<and>
    (color k = byColor \<and>
     isPositionUnderAttack \<lparr>row = (if color k = White then 7 else 0), col = 5\<rparr> byColor s \<longrightarrow>
       \<lparr>row = (if color k = White then 7 else 0), col = 6\<rparr> \<notin> set (getCastlingMoves k s)) \<and>
    (color k = byColor \<and>
     isPositionUnderAttack \<lparr>row = (if color k = White then 7 else 0), col = 3\<rparr> byColor s \<longrightarrow>
       \<lparr>row = (if color k = White then 7 else 0), col = 2\<rparr> \<notin> set (getCastlingMoves k s))"
proof -
  note pm = pawn_moves_for_attack[OF assms(1), of s]
  have covered: "isPositionUnderAttack pos byColor s" if "pos \<in> set (getPawnMoves p s)" for pos
    using that assms(2,3,4) pm unfolding isPositionUnderAttack_iff by auto
  have one: "isPositionUnderAttack \<lparr>row = row (position p) + d, col = col (position p)\<rparr> byColor s"
    if "isPositionOnBoard \<lparr>row = row (position p) + d, col = col (position p)\<rparr>"
      "pieceAt s \<lparr>row = row (position p) + d, col = col (position p)\<rparr> = None"
    using forwardOne_in_getPawnMoves[of p s] that covered unfolding assms(5) by blast
  have two: "isPositionUnderAttack \<lparr>row = row (position p) + d * 2, col = col (position p)\<rparr> byColor s"
    if "isPositionOnBoard \<lparr>row = row (position p) + d, col = col (position p)\<rparr>"
      "pieceAt s \<lparr>row = row (position p) + d, col = col (position p)\<rparr> = None"
      "\<not> hasMoved p"
      "isPositionOnBoard \<lparr>row = row (position p) + d * 2, col = col (position p)\<rparr>"
      "pieceAt s \<lparr>row = row (position p) + d * 2, col = col (position p)\<rparr> = None"
    using forwardTwo_in_getPawnMoves[of p s] that covered unfolding assms(5) by blast
  have diag: "\<lparr>row = row (position p) + d, col = col (position p) + dc\<rparr>
          \<in> set (getPseudoLegalMovesForAttack p s) \<longleftrightarrow>
        \<lparr>row = row (position p) + d, col = col (position p) + dc\<rparr>
          \<in> set (getEnPassantMoves p s)"
    if "dc \<noteq> 0" "pieceAt s \<lparr>row = row (position p) + d, col = col (position p) + dc\<rparr> = None"
    using empty_diagonal_in_getPawnMoves[OF that(2) that(1)] pm by simp
  have king: "getCastlingMoves k s = []"
    if "color k = byColor" "isPositionUnderAttack (position k) byColor s"
    using that attacked_king_no_castling[of k s] by simp
  have t5: "\<lparr>row = (if color k = White then 7 else 0), col = 6\<rparr> \<notin> set (getCastlingMoves k s)"
    if "color k = byColor"
      "isPositionUnderAttack \<lparr>row = (if color k = White then 7 else 0), col = 5\<rparr> byColor s"
    using that attacked_transit_no_castling(1)[of k 5 s] by simp
  have t3: "\<lparr>row = (if color k = White then 7 else 0), col = 2\<rparr> \<notin> set (getCastlingMoves k s)"
    if "color k = byColor"
      "isPositionUnderAttack \<lparr>row = (if color k = White then 7 else 0), col = 3\<rparr> byColor s"
    using that attacked_transit_no_castling(2)[of k 3 s] by simp
  have all: "\<forall>pos \<in> set (getPseudoLegalMoves p s). isPositionUnderAttack pos byColor s"
    using covered pm by simp
  have same: "getPseudoLegalMovesForAttack p s = getPseudoLegalMoves p s"
    using pm by simp
  from same all one two diag king t5 t3 show ?thesis by blast
qed

lemma pawnAboveTransit_facts:
  "pieceAt pawnAboveTransit \<lparr>row = 6, col = 5\<rparr> = Some (mkPiece Pawn Black 6 5 True)"
  "pieceAt pawnAboveTransit \<lparr>row = 7, col = 5\<rparr> = None"
  "pieceAt pawnAboveTransit \<lparr>row = 7, col = 6\<rparr> = None"
  by code_simp+

lemma pawnBesideTransit_castles:
  "getCastlingMoves (mkPiece King White 7 4 False) pawnBesideTransit = [\<lparr>row = 7, col = 6\<rparr>]"
  by code_simp

theorem pawn_attack_coverage_witness:
  "isPositionUnderAttack \<lparr>row = 7, col = 5\<rparr> White pawnAboveTransit \<and>
   \<lparr>row = 7, col = 6\<rparr> \<notin> set (getCastlingMoves (mkPiece King White 7 4 False) pawnAboveTransit) \<and>
   \<lparr>row = 7, col = 6\<rparr> \<notin> set (getPseudoLegalMovesForAttack (mkPiece Pawn Black 6 5 True)
                                 pawnAboveTransit) \<and>
   getCastlingMoves (mkPiece King White 7 4 False) pawnBesideTransit = [\<lparr>row = 7, col = 6\<rparr>]"
proof -
  let ?p = "mkPiece Pawn Black 6 5 True" and ?k = "mkPiece King White 7 4 False"
  have h: "type ?p = Pawn" "isPositionOnBoard \<lparr>row = 6, col = 5\<rparr>"
    "color ?p = opponentOf White" "(1::int) = (if color ?p = White then - 1 else 1)"
    by (simp_all add: mkPiece_def isPositionOnBoard_def opponentOf_def)
  have ep: "getEnPassantMoves ?p pawnAboveTransit = []"
    by (simp add: getEnPassantMoves_def pawnAboveTransit_def mkState_def mkPiece_def)
  have f: "row (position ?p) = 6" "col (position ?p) = 5" "color ?k = White" "\<not> hasMoved ?p = False"
    by (simp_all add: mkPiece_def)
  from pawn_attack_coverage[OF h(1,2) pawnAboveTransit_facts(1) h(3,4), of 1 ?k]
  show ?thesis
    using pawnAboveTransit_facts ep pawnBesideTransit_castles
    by (auto simp: f isPositionOnBoard_def)
qed

section \<open>Castling\<close>

lemma castling_kingside_iff:
  "\<lparr>row = r, col = 6\<rparr> \<in> set (getCastlingMoves k s) \<longleftrightarrow>
     r = (if color k = White then 7 else 0) \<and> \<not> hasMoved k \<and>
     \<not> isPositionUnderAttack (position k) (color k) s \<and>
     row (position k) = r \<and> col (position k) = 4 \<and>
     (\<exists>rook. cellAt (board s) r 7 = Some rook \<and> type rook = Rook \<and> color rook = color k \<and>
             \<not> hasMoved rook) \<and>
     cellAt (board s) r 5 = None \<and> cellAt (board s) r 6 = None \<and>
     \<not> isPositionUnderAttack \<lparr>row = r, col = 5\<rparr> (color k) s"
  unfolding getCastlingMoves_def Let_def
  by (auto split: option.splits) metis+

lemma castling_queenside_iff:
  "\<lparr>row = r, col = 2\<rparr> \<in> set (getCastlingMoves k s) \<longleftrightarrow>
     r = (if color k = White then 7 else 0) \<and> \<not> hasMoved k \<and>
     \<not> isPositionUnderAttack (position k) (color k) s \<and>
     row (position k) = r \<and> col (position k) = 4 \<and>
     (\<exists>rook. cellAt (board s) r 0 = Some rook \<and> type rook = Rook \<and> color rook = color k \<and>
             \<not> hasMoved rook) \<and>
     cellAt (board s) r 1 = None \<and> cellAt (board s) r 2 = None \<and> cellAt (board s) r 3 = None \<and>
     \<not> isPositionUnderAttack \<lparr>row = r, col = 3\<rparr> (color k) s"
  unfolding getCastlingMoves_def Let_def
  by (auto split: option.splits) metis+

lemma castling_cols: "pos \<in> set (getCastlingMoves k s) \<Longrightarrow> col pos = 6 \<or> col pos = 2"
  unfolding getCastlingMoves_def Let_def
  by (auto split: option.splits if_splits)

lemma offsetMoves_king_near:
  assumes "pos \<in> set (offsetMoves k s kingOffsets)"
  shows "\<bar>col pos - col (position k)\<bar> \<le> 1"
proof -
  have near: "\<forall>off \<in> set kingOffsets. \<bar>snd off\<bar> \<le> 1"
    by (simp add: kingOffsets_def)
  from assms obtain off where "off \<in> set kingOffsets" "pos = addOffset (position k) off"
    unfolding offsetMoves_def by auto
  with near show ?thesis by (auto simp: addOffset_def)
qed


lemma getValidMoves_king:
  assumes "pieceAt s kpos = Some k" and "type k = King" and "color k = currentTurn s"
  shows "getValidMoves kpos s =
           filter (\<lambda>toPos. \<not> wouldLeaveKingInCheck kpos toPos s)
             (offsetMoves k s kingOffsets @ getCastlingMoves k s)"
  using assms by (simp add: getValidMoves_def getPseudoLegalMoves_def getKingMoves_def)

lemma castling_two_right:
  "\<lparr>row = row (position k), col = col (position k) + 2\<rparr> \<in> set (getCastlingMoves k s) \<longleftrightarrow>
     col (position k) = 4 \<and> \<lparr>row = row (position k), col = 6\<rparr> \<in> set (getCastlingMoves k s)"
proof
  assume mem: "\<lparr>row = row (position k), col = col (position k) + 2\<rparr> \<in> set (getCastlingMoves k s)"
  from castling_cols[OF mem] have "col (position k) = 4 \<or> col (position k) = 0" by simp
  then show "col (position k) = 4 \<and> \<lparr>row = row (position k), col = 6\<rparr> \<in> set (getCastlingMoves k s)"
  proof
    assume c: "col (position k) = 4"
    with mem show ?thesis by simp
  next
    assume c: "col (position k) = 0"
    with mem have "\<lparr>row = row (position k), col = 2\<rparr> \<in> set (getCastlingMoves k s)" by simp
    then have "col (position k) = 4" unfolding castling_queenside_iff by blast
    with c show ?thesis by simp
  qed
next
  assume "col (position k) = 4 \<and> \<lparr>row = row (position k), col = 6\<rparr> \<in> set (getCastlingMoves k s)"
  then show "\<lparr>row = row (position k), col = col (position k) + 2\<rparr> \<in> set (getCastlingMoves k s)"
    by simp
qed

lemma castling_two_left:
  "\<lparr>row = row (position k), col = col (position k) - 2\<rparr> \<in> set (getCastlingMoves k s) \<longleftrightarrow>
     col (position k) = 4 \<and> \<lparr>row = row (position k), col = 2\<rparr> \<in> set (getCastlingMoves k s)"
proof
  assume mem: "\<lparr>row = row (position k), col = col (position k) - 2\<rparr> \<in> set (getCastlingMoves k s)"
  from castling_cols[OF mem] have "col (position k) = 8 \<or> col (position k) = 4" by simp
  then show "col (position k) = 4 \<and> \<lparr>row = row (position k), col = 2\<rparr> \<in> set (getCastlingMoves k s)"
  proof
    assume c: "col (position k) = 8"
    with mem have "\<lparr>row = row (position k), col = 6\<rparr> \<in> set (getCastlingMoves k s)" by simp
    then have "col (position k) = 4" unfolding castling_kingside_iff by blast
    with c show ?thesis by simp
  next
    assume c: "col (position k) = 4"
    with mem show ?thesis by simp
  qed
next
  assume "col (position k) = 4 \<and> \<lparr>row = row (position k), col = 2\<rparr> \<in> set (getCastlingMoves k s)"
  then show "\<lparr>row = row (position k), col = col (position k) - 2\<rparr> \<in> set (getCastlingMoves k s)"
    by simp
qed

lemma king_two_files_valid:
  assumes "pieceAt s (position k) = Some k" and "type k = King" and "color k = currentTurn s"
    and "\<bar>dc\<bar> = 2"
  shows "\<lparr>row = row (position k), col = col (position k) + dc\<rparr>
            \<in> set (getValidMoves (position k) s) \<longleftrightarrow>
         \<lparr>row = row (position k), col = col (position k) + dc\<rparr> \<in> set (getCastlingMoves k s) \<and>
         \<not> wouldLeaveKingInCheck (position k)
              \<lparr>row = row (position k), col = col (position k) + dc\<rparr> s"
proof -
  have far: "\<lparr>row = row (position k), col = col (position k) + dc\<rparr>
               \<notin> set (offsetMoves k s kingOffsets)"
    using offsetMoves_king_near[of "\<lparr>row = row (position k), col = col (position k) + dc\<rparr>" k s]
      assms(4) by auto
  show ?thesis
    unfolding getValidMoves_king[OF assms(1,2,3)] using far by simp
qed

text \<open>The claim as written fails where the king would land on an attacked square: in
  \<open>castlingIntoCheck\<close> every listed condition holds for the king side, and g1 is not among
  the king's legal moves.\<close>

theorem castling_into_check_counterexample:
  "pieceAt castlingIntoCheck \<lparr>row = 7, col = 4\<rparr> = Some (mkPiece King White 7 4 False) \<and>
   currentTurn castlingIntoCheck = White \<and>
   pieceAt castlingIntoCheck \<lparr>row = 7, col = 7\<rparr> = Some (mkPiece Rook White 7 7 False) \<and>
   pieceAt castlingIntoCheck \<lparr>row = 7, col = 5\<rparr> = None \<and>
   pieceAt castlingIntoCheck \<lparr>row = 7, col = 6\<rparr> = None \<and>
   \<not> isPositionUnderAttack \<lparr>row = 7, col = 4\<rparr> White castlingIntoCheck \<and>
   \<not> isPositionUnderAttack \<lparr>row = 7, col = 5\<rparr> White castlingIntoCheck \<and>
   \<lparr>row = 7, col = 6\<rparr> \<notin> set (getValidMoves \<lparr>row = 7, col = 4\<rparr> castlingIntoCheck)"
  by code_simp

text \<open>Claim C5, amended. Let the king \<open>k\<close> of the side to move stand on \<open>kpos\<close>, and let \<open>br\<close>
  be the back rank of its colour. The square two files toward the rook of column 7 is among
  the king's legal moves if and only if the king has not moved and stands on column 4 of
  \<open>br\<close>, column 7 of \<open>br\<close> holds an unmoved rook of the king's colour, columns 5 and 6 of
  \<open>br\<close> are empty, neither the king's square nor column 5 of \<open>br\<close> is attacked, and the
  self-check filter accepts the move (with the king alone moved to column 6, the king is
  not attacked). The same holds toward column 0, with columns 1, 2 and 3 empty, transit
  column 3 and destination column 2.\<close>

theorem castling_gating:
  assumes "pieceAt s kpos = Some k" and "type k = King" and "color k = currentTurn s"
    and "position k = kpos" and "br = (if color k = White then 7 else 0)"
  shows
    "(\<lparr>row = row kpos, col = col kpos + 2\<rparr> \<in> set (getValidMoves kpos s) \<longleftrightarrow>
        \<not> hasMoved k \<and> row kpos = br \<and> col kpos = 4 \<and>
        (\<exists>rook. cellAt (board s) br 7 = Some rook \<and> type rook = Rook \<and>
                color rook = color k \<and> \<not> hasMoved rook) \<and>
        cellAt (board s) br 5 = None \<and> cellAt (board s) br 6 = None \<and>
        \<not> isPositionUnderAttack kpos (color k) s \<and>
        \<not> isPositionUnderAttack \<lparr>row = br, col = 5\<rparr> (color k) s \<and>
        \<not> wouldLeaveKingInCheck kpos \<lparr>row = br, col = 6\<rparr> s) \<and>
     (\<lparr>row = row kpos, col = col kpos - 2\<rparr> \<in> set (getValidMoves kpos s) \<longleftrightarrow>
        \<not> hasMoved k \<and> row kpos = br \<and> col kpos = 4 \<and>
        (\<exists>rook. cellAt (board s) br 0 = Some rook \<and> type rook = Rook \<and>
                color rook = color k \<and> \<not> hasMoved rook) \<and>
        cellAt (board s) br 1 = None \<and> cellAt (board s) br 2 = None \<and>
        cellAt (board s) br 3 = None \<and>
        \<not> isPositionUnderAttack kpos (color k) s \<and>
        \<not> isPositionUnderAttack \<lparr>row = br, col = 3\<rparr> (color k) s \<and>
        \<not> wouldLeaveKingInCheck kpos \<lparr>row = br, col = 2\<rparr> s)"
proof -
  have pos: "pieceAt s (position k) = Some k" using assms(1,4) by simp
  have right: ?thesis if "\<not> (row kpos = br \<and> col kpos = 4)"
  proof -
    from that assms(4,5) have
      "\<lparr>row = row (position k), col = 6\<rparr> \<notin> set (getCastlingMoves k s) \<or> col (position k) \<noteq> 4"
      "\<lparr>row = row (position k), col = 2\<rparr> \<notin> set (getCastlingMoves k s) \<or> col (position k) \<noteq> 4"
      unfolding castling_kingside_iff castling_queenside_iff by blast+
    then have no: "\<lparr>row = row (position k), col = col (position k) + 2\<rparr> \<notin> set (getCastlingMoves k s)"
      "\<lparr>row = row (position k), col = col (position k) - 2\<rparr> \<notin> set (getCastlingMoves k s)"
      unfolding castling_two_right castling_two_left by blast+
    have "\<lparr>row = row kpos, col = col kpos + 2\<rparr> \<notin> set (getValidMoves kpos s)"
      using king_two_files_valid[OF pos assms(2,3), of 2] no(1) assms(4) by simp
    moreover have "\<lparr>row = row kpos, col = col kpos - 2\<rparr> \<notin> set (getValidMoves kpos s)"
      using king_two_files_valid[OF pos assms(2,3), of "- 2"] no(2) assms(4) by simp
    ultimately show ?thesis using that by blast
  qed
  have left: ?thesis if home: "row kpos = br \<and> col kpos = 4"
  proof -
    from home assms(4) have k4: "col (position k) = 4" "row (position k) = br" by simp_all
    have six: "\<lparr>row = row kpos, col = col kpos + 2\<rparr> = \<lparr>row = br, col = 6\<rparr>"
      and two: "\<lparr>row = row kpos, col = col kpos - 2\<rparr> = \<lparr>row = br, col = 2\<rparr>"
      using home by simp_all
    have v6: "\<lparr>row = br, col = 6\<rparr> \<in> set (getValidMoves kpos s) \<longleftrightarrow>
         \<lparr>row = br, col = 6\<rparr> \<in> set (getCastlingMoves k s) \<and>
         \<not> wouldLeaveKingInCheck kpos \<lparr>row = br, col = 6\<rparr> s"
      using king_two_files_valid[OF pos assms(2,3), of 2] k4 assms(4) by simp
    have v2: "\<lparr>row = br, col = 2\<rparr> \<in> set (getValidMoves kpos s) \<longleftrightarrow>
         \<lparr>row = br, col = 2\<rparr> \<in> set (getCastlingMoves k s) \<and>
         \<not> wouldLeaveKingInCheck kpos \<lparr>row = br, col = 2\<rparr> s"
      using king_two_files_valid[OF pos assms(2,3), of "- 2"] k4 assms(4) by simp
    have c6: "\<lparr>row = br, col = 6\<rparr> \<in> set (getCastlingMoves k s) \<longleftrightarrow>
        \<not> hasMoved k \<and>
        (\<exists>rook. cellAt (board s) br 7 = Some rook \<and> type rook = Rook \<and>
                color rook = color k \<and> \<not> hasMoved rook) \<and>
        cellAt (board s) br 5 = None \<and> cellAt (board s) br 6 = None \<and>
        \<not> isPositionUnderAttack kpos (color k) s \<and>
        \<not> isPositionUnderAttack \<lparr>row = br, col = 5\<rparr> (color k) s"
      unfolding castling_kingside_iff using k4 assms(4,5) by blast
    have c2: "\<lparr>row = br, col = 2\<rparr> \<in> set (getCastlingMoves k s) \<longleftrightarrow>
        \<not> hasMoved k \<and>
        (\<exists>rook. cellAt (board s) br 0 = Some rook \<and> type rook = Rook \<and>
                color rook = color k \<and> \<not> hasMoved rook) \<and>
        cellAt (board s) br 1 = None \<and> cellAt (board s) br 2 = None \<and>
        cellAt (board s) br 3 = None \<and>
        \<not> isPositionUnderAttack kpos (color k) s \<and>
        \<not> isPositionUnderAttack \<lparr>row = br, col = 3\<rparr> (color k) s"
      unfolding castling_queenside_iff using k4 assms(4,5) by blast
    show ?thesis unfolding six two v6 v2 c6 c2 using home by blast
  qed
  from left right show ?thesis by blast
qed

lemma castlingReady_facts:
  "pieceAt castlingReady \<lparr>row = 7, col = 4\<rparr> = Some (mkPiece King White 7 4 False)"
  "currentTurn castlingReady = White"
  "cellAt (board castlingReady) 7 7 = Some (mkPiece Rook White 7 7 False)"
  "cellAt (board castlingReady) 7 5 = None"
  "cellAt (board castlingReady) 7 6 = None"
  "cellAt (board castlingReady) 7 0 = None"
  "\<not> isPositionUnderAttack \<lparr>row = 7, col = 4\<rparr> White castlingReady"
  "\<not> isPositionUnderAttack \<lparr>row = 7, col = 5\<rparr> White castlingReady"
  "\<not> wouldLeaveKingInCheck \<lparr>row = 7, col = 4\<rparr> \<lparr>row = 7, col = 6\<rparr> castlingReady"
  by code_simp+

theorem castling_gating_witness:
  "pieceAt castlingReady \<lparr>row = 7, col = 4\<rparr> = Some (mkPiece King White 7 4 False) \<and>
   currentTurn castlingReady = White \<and>
   \<lparr>row = 7, col = 6\<rparr> \<in> set (getValidMoves \<lparr>row = 7, col = 4\<rparr> castlingReady) \<and>
   \<lparr>row = 7, col = 2\<rparr> \<notin> set (getValidMoves \<lparr>row = 7, col = 4\<rparr> castlingReady)"
proof -
  let ?k = "mkPiece King White 7 4 False"
  have h: "type ?k = King" "color ?k = currentTurn castlingReady"
    "position ?k = \<lparr>row = 7, col = 4\<rparr>" "(7::int) = (if color ?k = White then 7 else 0)"
    by (simp_all add: mkPiece_def castlingReady_facts(2))
  have f: "color ?k = White" "hasMoved ?k = False"
    "type (mkPiece Rook White 7 7 False) = Rook" "color (mkPiece Rook White 7 7 False) = White"
    "hasMoved (mkPiece Rook White 7 7 False) = False"
    by (simp_all add: mkPiece_def)
  from castling_gating[OF castlingReady_facts(1) h]
  show ?thesis
    using castlingReady_facts f by simp
qed

section \<open>The validator and the legal move set\<close>

lemma mem_getAllLegalMoves:
  "m' \<in> set (getAllLegalMoves c s) \<longleftrightarrow>
     (\<exists>sq p toPos. isPositionOnBoard sq \<and> pieceAt s sq = Some p \<and> color p = c \<and>
        toPos \<in> set (getValidMoves sq s) \<and> m' = plainMove sq toPos p)"
  unfolding getAllLegalMoves_def set_concat set_map set_allSquares
  by (auto split: option.splits if_splits) metis


lemma isValidMove_char:
  "isValidMove m s \<longleftrightarrow>
     (\<exists>p. pieceAt s (from m) = Some p \<and> color p = currentTurn s \<and> type p = type (piece m) \<and>
          color p = color (piece m) \<and> to m \<in> set (getValidMoves (from m) s)) \<and>
     (isCastling m \<longrightarrow> type (piece m) = King \<and> \<bar>col (to m) - col (from m)\<bar> = 2) \<and>
     (isEnPassant m \<longrightarrow>
        type (piece m) = Pawn \<and> col (to m) \<noteq> col (from m) \<and> pieceAt s (to m) = None) \<and>
     (promotionType m \<noteq> None \<longrightarrow> isPawnPromotion (from m) (to m) s)"
proof (cases "pieceAt s (from m)")
  case None
  then show ?thesis by (simp add: isValidMove_def)
next
  case (Some p)
  show ?thesis
    unfolding isValidMove_def Some option.case anyOf_iff positionsEqual_iff
    by (cases "type p = type (piece m)") auto
qed


lemma castlingReady_valid: "isValidBoard (board castlingReady)"
  unfolding castlingReady_def
  by (rule isValidBoard_mkState) (simp add: mkPiece_def isPositionOnBoard_def)

lemma castlingReady_validator:
  "isValidMove castleKingside castlingReady" "\<not> isValidMove falseCastle castlingReady"
  by code_simp+


section \<open>The initial position\<close>

lemma initial_moves: "getAllLegalMoves White initializeGame = openingMoves"
  by code_simp

lemma after_a3: "blackRepliesAfter (whitePawnMove 0 5) = Some 20"
  by code_simp

lemma after_a4: "blackRepliesAfter (whitePawnMove 0 4) = Some 20"
  by code_simp

lemma after_b3: "blackRepliesAfter (whitePawnMove 1 5) = Some 20"
  by code_simp

lemma after_b4: "blackRepliesAfter (whitePawnMove 1 4) = Some 20"
  by code_simp

lemma after_c3: "blackRepliesAfter (whitePawnMove 2 5) = Some 20"
  by code_simp

lemma after_c4: "blackRepliesAfter (whitePawnMove 2 4) = Some 20"
  by code_simp

lemma after_d3: "blackRepliesAfter (whitePawnMove 3 5) = Some 20"
  by code_simp

lemma after_d4: "blackRepliesAfter (whitePawnMove 3 4) = Some 20"
  by code_simp

lemma after_e3: "blackRepliesAfter (whitePawnMove 4 5) = Some 20"
  by code_simp

lemma after_e4: "blackRepliesAfter (whitePawnMove 4 4) = Some 20"
  by code_simp

lemma after_f3: "blackRepliesAfter (whitePawnMove 5 5) = Some 20"
  by code_simp

lemma after_f4: "blackRepliesAfter (whitePawnMove 5 4) = Some 20"
  by code_simp

lemma after_g3: "blackRepliesAfter (whitePawnMove 6 5) = Some 20"
  by code_simp

lemma after_g4: "blackRepliesAfter (whitePawnMove 6 4) = Some 20"
  by code_simp

lemma after_h3: "blackRepliesAfter (whitePawnMove 7 5) = Some 20"
  by code_simp

lemma after_h4: "blackRepliesAfter (whitePawnMove 7 4) = Some 20"
  by code_simp

lemma after_Na3: "blackRepliesAfter (whiteKnightMove 1 0) = Some 20"
  by code_simp

lemma after_Nc3: "blackRepliesAfter (whiteKnightMove 1 2) = Some 20"
  by code_simp

lemma after_Nf3: "blackRepliesAfter (whiteKnightMove 6 5) = Some 20"
  by code_simp

lemma after_Nh3: "blackRepliesAfter (whiteKnightMove 6 7) = Some 20"
  by code_simp

text \<open>Claim C7. \<open>initializeGame\<close> gives white 20 legal moves, 16 of pawns and 4 of knights,
  and after each of them \<open>executeMove\<close> returns a state in which black has 20 legal moves.\<close>

theorem scenario_A:
  "length (getAllLegalMoves White initializeGame) = 20 \<and>
   length (filter (\<lambda>m. type (piece m) = Pawn) (getAllLegalMoves White initializeGame)) = 16 \<and>
   length (filter (\<lambda>m. type (piece m) = Knight) (getAllLegalMoves White initializeGame)) = 4 \<and>
   list_all (\<lambda>m. case executeMove m initializeGame of
                    Inl e \<Rightarrow> False
                  | Inr s' \<Rightarrow> length (getAllLegalMoves Black s') = 20)
     (getAllLegalMoves White initializeGame)"
proof -
  have replies: "list_all (\<lambda>m. blackRepliesAfter m = Some 20) openingMoves"
    unfolding openingMoves_def indices_def
    by (simp add: after_a3 after_a4 after_b3 after_b4 after_c3 after_c4
      after_d3 after_d4 after_e3 after_e4 after_f3 after_f4
      after_g3 after_g4 after_h3 after_h4 after_Na3 after_Nc3
      after_Nf3 after_Nh3)
  have "blackRepliesAfter m = Some 20 \<longleftrightarrow>
        (case executeMove m initializeGame of
           Inl e \<Rightarrow> False
         | Inr s' \<Rightarrow> length (getAllLegalMoves Black s') = 20)" for m
    by (simp add: blackRepliesAfter_def split: sum.splits)
  with replies have all: "list_all (\<lambda>m. case executeMove m initializeGame of
                    Inl e \<Rightarrow> False
                  | Inr s' \<Rightarrow> length (getAllLegalMoves Black s') = 20) openingMoves"
    by simp
  have counts: "length openingMoves = 20"
    "length (filter (\<lambda>m. type (piece m) = Pawn) openingMoves) = 16"
    "length (filter (\<lambda>m. type (piece m) = Knight) openingMoves) = 4"
    by (simp_all add: openingMoves_def indices_def whitePawnMove_def whiteKnightMove_def
        plainMove_def mkPiece_def)
  from all counts show ?thesis unfolding initial_moves by simp
qed

section \<open>Move selection\<close>

lemma slideFrom_onBoard: "pos \<in> set (slideFrom n p d s cur) \<Longrightarrow> isPositionOnBoard pos"
  by (induction n p d s cur rule: slideFrom.induct) (auto split: if_splits option.splits)

lemma offsetMoves_onBoard: "pos \<in> set (offsetMoves p s offs) \<Longrightarrow> isPositionOnBoard pos"
  by (auto simp: offsetMoves_def)

lemma getPawnMoves_rows: "pos \<in> set (getPawnMoves p s) \<Longrightarrow> 0 \<le> row pos \<and> row pos \<le> 7"
  unfolding getPawnMoves_def Let_def getEnPassantMoves_char
  by (auto simp: isPositionOnBoard_def split: if_splits option.splits)

lemma getCastlingMoves_rows: "pos \<in> set (getCastlingMoves k s) \<Longrightarrow> 0 \<le> row pos \<and> row pos \<le> 7"
  unfolding getCastlingMoves_def Let_def
  by (auto split: if_splits option.splits)

lemma getPseudoLegalMoves_rows:
  assumes "pos \<in> set (getPseudoLegalMoves p s)"
  shows "0 \<le> row pos \<and> row pos \<le> 7"
proof (cases "type p")
  case Pawn
  with assms show ?thesis by (simp add: getPseudoLegalMoves_def getPawnMoves_rows)
next
  case Knight
  with assms show ?thesis
    using offsetMoves_onBoard[of pos p s knightOffsets]
    by (simp add: getPseudoLegalMoves_def getKnightMoves_def isPositionOnBoard_def)
next
  case Bishop
  with assms show ?thesis
    using slideFrom_onBoard[of pos]
    by (auto simp: getPseudoLegalMoves_def getBishopMoves_def getSlidingMoves_def
        isPositionOnBoard_def)
next
  case Rook
  with assms show ?thesis
    using slideFrom_onBoard[of pos]
    by (auto simp: getPseudoLegalMoves_def getRookMoves_def getSlidingMoves_def
        isPositionOnBoard_def)
next
  case Queen
  with assms show ?thesis
    using slideFrom_onBoard[of pos]
    by (auto simp: getPseudoLegalMoves_def getQueenMoves_def getSlidingMoves_def
        isPositionOnBoard_def)
next
  case King
  with assms show ?thesis
    using offsetMoves_onBoard[of pos p s kingOffsets] getCastlingMoves_rows[of pos p s]
    by (auto simp: getPseudoLegalMoves_def getKingMoves_def isPositionOnBoard_def)
qed

lemma getValidMoves_rows:
  "pos \<in> set (getValidMoves sq s) \<Longrightarrow> 0 \<le> row pos \<and> row pos \<le> 7"
  using getPseudoLegalMoves_rows
  by (auto simp: getValidMoves_def split: option.splits if_splits)

lemma executeMove_unflagged:
  assumes "pieceAt s (from m) = Some p" and "hasRow (board s) (row (to m))"
    and "\<not> isEnPassant m" and "\<not> isCastling m"
  shows "\<exists>s'. executeMove m s = Inr s'"
  using assms unfolding executeMove_def Let_def by simp

lemma executeMove_legal:
  assumes "isValidBoard (board s)" and "m \<in> set (getAllLegalMoves c s)"
  shows "\<exists>s'. executeMove m s = Inr s'"
proof -
  from assms(2) obtain sq p toPos where m: "pieceAt s sq = Some p"
    "toPos \<in> set (getValidMoves sq s)" "m = plainMove sq toPos p"
    unfolding mem_getAllLegalMoves by blast
  from getValidMoves_rows[OF m(2)] assms(1) have "hasRow (board s) (row toPos)"
    by (simp add: hasRow_def isValidBoard_def)
  with m show ?thesis
    by (intro executeMove_unflagged[where p = p]) (simp_all add: plainMove_def)
qed

lemma wouldResultInCheckmate_legal:
  assumes "isValidBoard (board s)" and "m \<in> set (getAllLegalMoves c s)"
  shows "\<exists>mate. wouldResultInCheckmate m s = Inr mate"
  using executeMove_legal[OF assms] by (auto simp: wouldResultInCheckmate_def Let_def)

lemma scoreMoves_total:
  assumes "\<forall>m \<in> set ms. \<exists>s'. executeMove m s = Inr s'"
  shows "\<exists>scored. scoreMoves scoreOf s ms i = Inr scored \<and> map fst scored = ms"
  using assms
proof (induction ms arbitrary: i)
  case Nil
  then show ?case by simp
next
  case (Cons m ms)
  then obtain s' where s': "executeMove m s = Inr s'" by auto
  from Cons obtain scored where "scoreMoves scoreOf s ms (Suc i) = Inr scored" "map fst scored = ms"
    by (metis list.set_intros(2))
  with s' show ?case by simp
qed

lemma filterNonCheckmate_total:
  assumes "\<forall>m \<in> set (map fst xs). \<exists>mate. wouldResultInCheckmate m s = Inr mate"
  shows "filterNonCheckmate xs s =
           Inr (filter (\<lambda>x. wouldResultInCheckmate (fst x) s = Inr False) xs)"
  using assms
proof (induction xs)
  case Nil
  then show ?case by simp
next
  case (Cons x xs)
  obtain m sc where x: "x = (m, sc)" by (cases x)
  from Cons.prems x obtain mate where mate: "wouldResultInCheckmate m s = Inr mate" by auto
  from Cons have "filterNonCheckmate xs s =
           Inr (filter (\<lambda>x. wouldResultInCheckmate (fst x) s = Inr False) xs)"
    by simp
  with x mate show ?case by simp
qed

lemma hd_filter: "filter P xs \<noteq> [] \<Longrightarrow> P (hd (filter P xs)) \<and> hd (filter P xs) \<in> set xs"
proof -
  assume ne: "filter P xs \<noteq> []"
  then have "hd (filter P xs) \<in> set (filter P xs)" by (rule hd_in_set)
  then show ?thesis by simp
qed

lemma hd_sort_key_le:
  assumes "xs \<noteq> []" and "x \<in> set xs"
  shows "f (hd (sort_key f xs)) \<le> f x"
proof -
  let ?ys = "sort_key f xs"
  from assms(1) have ne: "?ys \<noteq> []" by (metis length_0_conv length_sort)
  then obtain y ys where ys: "?ys = y # ys" by (cases ?ys) auto
  have "sorted (map f ?ys)" by (rule sorted_sort_key)
  with ys have "\<forall>z \<in> set ys. f y \<le> f z" by simp
  moreover from assms(2) have "x \<in> set ?ys" by simp
  ultimately show ?thesis using ys by auto
qed

text \<open>Claim C8. On an 8x8 board where black has a legal move, \<open>generateMove\<close> returns a legal
  move, whatever the scores. In easy mode, and in hard mode while \<open>moveCount < 10\<close>, the
  returned move does not result in checkmate whenever some legal move does not. In hard
  mode from \<open>moveCount = 10\<close> on nothing is excluded: the returned move has the highest
  score of all legal moves.\<close>

theorem generateMove_avoids_checkmate:
  assumes "isValidBoard (board s)" and "getAllLegalMoves Black s \<noteq> []"
  shows "\<exists>move. generateMove scoreOf randomIndex s config = Inr move \<and>
           move \<in> set (getAllLegalMoves Black s) \<and>
           ((difficulty config = Easy \<or> moveCount s < 10) \<and>
            (\<exists>other \<in> set (getAllLegalMoves Black s). wouldResultInCheckmate other s = Inr False)
              \<longrightarrow> wouldResultInCheckmate move s = Inr False) \<and>
           (difficulty config = Hard \<and> 10 \<le> moveCount s \<longrightarrow>
              (\<exists>scored sc. scoreMoves scoreOf s (getAllLegalMoves Black s) 0 = Inr scored \<and>
                 (move, sc) \<in> set scored \<and> (\<forall>x \<in> set scored. snd x \<le> sc)))"
proof -
  let ?L = "getAllLegalMoves Black s"
  let ?key = "\<lambda>(move, sc). - (sc::real)"
  let ?P = "\<lambda>x. wouldResultInCheckmate (fst x) s = Inr False"
  have "\<forall>m \<in> set ?L. \<exists>s'. executeMove m s = Inr s'"
    using executeMove_legal[OF assms(1)] by blast
  from scoreMoves_total[OF this, of scoreOf 0]
  obtain scored where scored: "scoreMoves scoreOf s ?L 0 = Inr scored" "map fst scored = ?L"
    by blast
  define sorted where "sorted = sort_key ?key scored"
  have set_sorted: "set sorted = set scored" by (simp add: sorted_def)
  from scored(2) assms(2) have scored_ne: "scored \<noteq> []" by auto
  then have sorted_ne: "sorted \<noteq> []"
    unfolding sorted_def by (metis length_0_conv length_sort)
  have fst_sorted: "fst x \<in> set ?L" if "x \<in> set sorted" for x
    using that set_sorted scored(2) by (metis image_eqI list.set_map)
  have "\<forall>m \<in> set (map fst sorted). \<exists>mate. wouldResultInCheckmate m s = Inr mate"
    using fst_sorted wouldResultInCheckmate_legal[OF assms(1), of _ Black] by fastforce
  from filterNonCheckmate_total[OF this]
  have filt: "filterNonCheckmate sorted s = Inr (filter ?P sorted)" .
  have len: "length ?L \<noteq> 0" using assms(2) by simp
  show ?thesis
  proof (cases "difficulty config = Easy \<or> moveCount s < 10")
    case excl: True
    then have cond: "difficulty config = Easy \<or> (difficulty config = Hard \<and> moveCount s < 10)"
      by (cases "difficulty config") auto
    from excl have notHard: "\<not> (difficulty config = Hard \<and> 10 \<le> moveCount s)" by auto
    show ?thesis
    proof (cases "filter ?P sorted = []")
      case True
      have res: "generateMove scoreOf randomIndex s config = Inr (fst (hd sorted))"
        unfolding generateMove_def Let_def
        using len scored(1) cond filt True sorted_ne scored_ne by (simp add: sorted_def)
      have "fst (hd sorted) \<in> set ?L" using fst_sorted sorted_ne by simp
      moreover have "\<not> (\<exists>other \<in> set ?L. wouldResultInCheckmate other s = Inr False)"
      proof
        assume "\<exists>other \<in> set ?L. wouldResultInCheckmate other s = Inr False"
        then obtain other where o: "other \<in> set ?L" "wouldResultInCheckmate other s = Inr False"
          by blast
        from o(1) scored(2) set_sorted obtain x where "x \<in> set sorted" "fst x = other"
          by (metis (no_types, lifting) imageE list.set_map)
        with o(2) have "x \<in> set (filter ?P sorted)" by simp
        with True show False by simp
      qed
      ultimately show ?thesis using res notHard by blast
    next
      case False
      have res: "generateMove scoreOf randomIndex s config = Inr (fst (hd (filter ?P sorted)))"
        unfolding generateMove_def Let_def
        using len scored(1) cond filt False scored_ne by (simp add: sorted_def)
      from hd_filter[OF False] have "?P (hd (filter ?P sorted))" "hd (filter ?P sorted) \<in> set sorted"
        by simp_all
      then have "wouldResultInCheckmate (fst (hd (filter ?P sorted))) s = Inr False"
        "fst (hd (filter ?P sorted)) \<in> set ?L"
        using fst_sorted by simp_all
      then show ?thesis using res notHard by blast
    qed
  next
    case noexcl: False
    then have hard: "difficulty config = Hard" "10 \<le> moveCount s"
      by (cases "difficulty config"; simp)+
    from noexcl have cond: "\<not> (difficulty config = Easy \<or> (difficulty config = Hard \<and> moveCount s < 10))"
      by auto
    have res: "generateMove scoreOf randomIndex s config = Inr (fst (hd sorted))"
      unfolding generateMove_def Let_def
      using len scored(1) hard sorted_ne scored_ne by (simp add: sorted_def not_less[symmetric])
    have mem: "hd sorted \<in> set scored" using sorted_ne set_sorted by (metis hd_in_set)
    have top: "snd x \<le> snd (hd sorted)" if "x \<in> set scored" for x
    proof -
      from hd_sort_key_le[OF scored_ne that, of ?key]
      have "?key (hd sorted) \<le> ?key x" by (simp add: sorted_def)
      then show ?thesis by (simp add: case_prod_beta)
    qed
    have "fst (hd sorted) \<in> set ?L" using fst_sorted sorted_ne by simp
    moreover have "\<exists>scored' sc. scoreMoves scoreOf s ?L 0 = Inr scored' \<and>
                 (fst (hd sorted), sc) \<in> set scored' \<and> (\<forall>x \<in> set scored'. snd x \<le> sc)"
      using scored(1) mem top by (intro exI[of _ scored] exI[of _ "snd (hd sorted)"]) simp
    ultimately show ?thesis using res noexcl by blast
  qed
qed

lemma mateInOne_valid: "isValidBoard (board mateInOne)"
  unfolding mateInOne_def
  by (rule isValidBoard_mkState) (simp add: mkPiece_def isPositionOnBoard_def)

lemma mateInOne_facts:
  "getAllLegalMoves Black mateInOne \<noteq> []"
  "plainMove \<lparr>row = 0, col = 0\<rparr> \<lparr>row = 0, col = 1\<rparr> (mkPiece Rook Black 0 0 True)
     \<in> set (getAllLegalMoves Black mateInOne)"
  "wouldResultInCheckmate
     (plainMove \<lparr>row = 0, col = 0\<rparr> \<lparr>row = 0, col = 1\<rparr> (mkPiece Rook Black 0 0 True))
     mateInOne = Inr False"
  "plainMove \<lparr>row = 0, col = 0\<rparr> \<lparr>row = 7, col = 0\<rparr> (mkPiece Rook Black 0 0 True)
     \<in> set (getAllLegalMoves Black mateInOne)"
  "wouldResultInCheckmate
     (plainMove \<lparr>row = 0, col = 0\<rparr> \<lparr>row = 7, col = 0\<rparr> (mkPiece Rook Black 0 0 True))
     mateInOne = Inr True"
  by code_simp+

lemma mateInOne_hard_plays_mate:
  "generateMove (\<lambda>i s'. if isCheckmateFlag s' then 10000 else 0) 0 (mateInOne\<lparr>moveCount := 10\<rparr>)
     \<lparr>difficulty = Hard, maxThinkingTime = 3000\<rparr> =
   Inr (plainMove \<lparr>row = 0, col = 0\<rparr> \<lparr>row = 7, col = 0\<rparr> (mkPiece Rook Black 0 0 True))"
  by code_simp

theorem generateMove_avoids_checkmate_witness:
  "isValidBoard (board mateInOne) \<and> getAllLegalMoves Black mateInOne \<noteq> [] \<and>
   wouldResultInCheckmate
     (plainMove \<lparr>row = 0, col = 0\<rparr> \<lparr>row = 7, col = 0\<rparr> (mkPiece Rook Black 0 0 True))
     mateInOne = Inr True \<and>
   (\<exists>move. generateMove (\<lambda>i s'. if isCheckmateFlag s' then 10000 else 0) 0 mateInOne
              \<lparr>difficulty = Easy, maxThinkingTime = 2000\<rparr> = Inr move \<and>
           move \<in> set (getAllLegalMoves Black mateInOne) \<and>
           wouldResultInCheckmate move mateInOne = Inr False) \<and>
   generateMove (\<lambda>i s'. if isCheckmateFlag s' then 10000 else 0) 0 (mateInOne\<lparr>moveCount := 10\<rparr>)
     \<lparr>difficulty = Hard, maxThinkingTime = 3000\<rparr> =
   Inr (plainMove \<lparr>row = 0, col = 0\<rparr> \<lparr>row = 7, col = 0\<rparr> (mkPiece Rook Black 0 0 True))"
proof -
  have "difficulty \<lparr>difficulty = Easy, maxThinkingTime = 2000\<rparr> = Easy" by simp
  with generateMove_avoids_checkmate[OF mateInOne_valid mateInOne_facts(1),
      of "\<lambda>i s'. if isCheckmateFlag s' then 10000 else 0" 0
         "\<lparr>difficulty = Easy, maxThinkingTime = 2000\<rparr>"]
    mateInOne_facts(2,3)
  have "\<exists>move. generateMove (\<lambda>i s'. if isCheckmateFlag s' then 10000 else 0) 0 mateInOne
              \<lparr>difficulty = Easy, maxThinkingTime = 2000\<rparr> = Inr move \<and>
           move \<in> set (getAllLegalMoves Black mateInOne) \<and>
           wouldResultInCheckmate move mateInOne = Inr False"
    by blast
  with mateInOne_valid mateInOne_facts(1,5) mateInOne_hard_plays_mate show ?thesis by blast
qed

section \<open>What move execution leaves untouched\<close>

lemma take_eq_length: "take (length ys) xs = ys \<Longrightarrow> length ys \<le> length xs"
  by (drule arg_cong[where f = length]) simp

lemma extends_refl: "extends h h"
  by (simp add: extends_def)

lemma extends_lengths:
  "extends h h' \<Longrightarrow> length (pieceObjs h) \<le> length (pieceObjs h') \<and>
                      length (rowObjs h) \<le> length (rowObjs h')"
  unfolding extends_def by (simp add: take_eq_length)

lemma take_take_le: "n \<le> m \<Longrightarrow> take n (take m xs) = take n xs"
  by (simp add: min_def)

lemma extends_trans:
  assumes "extends h h1" and "extends h1 h2"
  shows "extends h h2"
proof -
  from extends_lengths[OF assms(1)] have le: "length (pieceObjs h) \<le> length (pieceObjs h1)"
    "length (rowObjs h) \<le> length (rowObjs h1)" by simp_all
  have "take (length (pieceObjs h)) (pieceObjs h2) =
        take (length (pieceObjs h)) (take (length (pieceObjs h1)) (pieceObjs h2))"
    using le(1) by (simp add: take_take_le)
  also have "\<dots> = pieceObjs h" using assms by (simp add: extends_def)
  finally have p: "take (length (pieceObjs h)) (pieceObjs h2) = pieceObjs h" .
  have "take (length (rowObjs h)) (rowObjs h2) =
        take (length (rowObjs h)) (take (length (rowObjs h1)) (rowObjs h2))"
    using le(2) by (simp add: take_take_le)
  also have "\<dots> = rowObjs h" using assms by (simp add: extends_def)
  finally have r: "take (length (rowObjs h)) (rowObjs h2) = rowObjs h" .
  from p r show ?thesis by (simp add: extends_def)
qed

lemma extends_nth:
  assumes "extends h h'"
  shows "a < length (pieceObjs h) \<Longrightarrow> pieceObjs h' ! a = pieceObjs h ! a"
    and "ra < length (rowObjs h) \<Longrightarrow> rowObjs h' ! ra = rowObjs h ! ra"
  using assms unfolding extends_def by (metis nth_take)+

lemma extends_newPieceObj: "newPieceObj h p = (a, h') \<Longrightarrow> extends h h'"
  by (auto simp: newPieceObj_def extends_def)

lemma extends_newRowObj: "newRowObj h cells = (ra, h') \<Longrightarrow> extends h h'"
  by (auto simp: newRowObj_def extends_def)

lemma extends_updPiece:
  assumes "extends h h'" and "length (pieceObjs h) \<le> a"
  shows "extends h (updPiece h' a f)"
  using assms by (simp add: extends_def updPiece_def)

lemma extends_setRef:
  assumes "extends h h'" and "length (rowObjs h) \<le> b ! nat r"
  shows "extends h (setRef h' b r c v)"
  using assms by (simp add: extends_def setRef_def)

lemma copyCells_props:
  "copyCells h cells = (cells', h') \<Longrightarrow>
     extends h h' \<and> rowObjs h' = rowObjs h \<and> length cells' = length cells \<and>
     (\<forall>a. Some a \<in> set cells' \<longrightarrow> length (pieceObjs h) \<le> a \<and> a < length (pieceObjs h'))"
proof (induction h cells arbitrary: cells' h' rule: copyCells.induct)
  case (1 h)
  then show ?case by (simp add: extends_refl)
next
  case (2 h cells)
  then obtain cs where cs: "copyCells h cells = (cs, h')" "cells' = None # cs"
    by (auto simp: Let_def split: prod.splits)
  from "2.IH"[OF cs(1)] cs(2) show ?case by auto
next
  case (3 h a cells)
  obtain a' h1 where n: "newPieceObj h (pieceObjs h ! a) = (a', h1)"
    by (cases "newPieceObj h (pieceObjs h ! a)")
  with "3.prems" obtain cs where cs: "copyCells h1 cells = (cs, h')" "cells' = Some a' # cs"
    by (auto simp: Let_def split: prod.splits)
  from n have n': "a' = length (pieceObjs h)" "length (pieceObjs h1) = Suc (length (pieceObjs h))"
    "rowObjs h1 = rowObjs h"
    by (auto simp: newPieceObj_def)
  from "3.IH"[OF n[symmetric] refl cs(1)]
  have ih: "extends h1 h'" "rowObjs h' = rowObjs h1" "length cs = length cells"
    "\<forall>a. Some a \<in> set cs \<longrightarrow> length (pieceObjs h1) \<le> a \<and> a < length (pieceObjs h')"
    by simp_all
  have ext: "extends h h'"
    using extends_trans[OF extends_newPieceObj[OF n] ih(1)] .
  from extends_lengths[OF ih(1)] n' have "a' < length (pieceObjs h')" by simp
  with ext ih n' cs(2) show ?case by auto
qed

lemma copyRows_props:
  "copyRows h b = (b', h') \<Longrightarrow>
     extends h h' \<and> ownedBoard h h' b' \<and> length b' = length b"
proof (induction h b arbitrary: b' h' rule: copyRows.induct)
  case (1 h)
  then show ?case by (simp add: extends_refl ownedBoard_def)
next
  case (2 h ra ras)
  obtain cells h1 where c: "copyCells h (rowObjs h ! ra) = (cells, h1)"
    by (cases "copyCells h (rowObjs h ! ra)")
  obtain ra' h2 where n: "newRowObj h1 cells = (ra', h2)"
    by (cases "newRowObj h1 cells")
  with c "2.prems" obtain ras' where r: "copyRows h2 ras = (ras', h')" "b' = ra' # ras'"
    by (auto simp: Let_def split: prod.splits)
  from copyCells_props[OF c] have cp: "extends h h1" "rowObjs h1 = rowObjs h"
    "\<forall>a. Some a \<in> set cells \<longrightarrow> length (pieceObjs h) \<le> a \<and> a < length (pieceObjs h1)"
    by simp_all
  from n have n': "ra' = length (rowObjs h1)" "rowObjs h2 = rowObjs h1 @ [cells]"
    "pieceObjs h2 = pieceObjs h1"
    by (auto simp: newRowObj_def)
  from "2.IH"[OF c[symmetric] refl n[symmetric] refl r(1)]
  have ih: "extends h2 h'" "ownedBoard h2 h' ras'" "length ras' = length ras" by simp_all
  have e12: "extends h1 h2" using extends_newRowObj[OF n] .
  have ext: "extends h h'" using extends_trans[OF extends_trans[OF cp(1) e12] ih(1)] .
  from extends_lengths[OF cp(1)] extends_lengths[OF e12] extends_lengths[OF ih(1)]
  have le: "length (pieceObjs h) \<le> length (pieceObjs h2)" "length (rowObjs h) \<le> length (rowObjs h2)"
    "length (pieceObjs h2) \<le> length (pieceObjs h')" "length (rowObjs h2) \<le> length (rowObjs h')"
    by simp_all
  have ra'_lt: "ra' < length (rowObjs h2)" using n' by simp
  have row': "rowObjs h' ! ra' = cells"
    using extends_nth(2)[OF ih(1) ra'_lt] n' by simp
  have head: "length (rowObjs h) \<le> ra' \<and> ra' < length (rowObjs h') \<and>
        (\<forall>a. Some a \<in> set (rowObjs h' ! ra') \<longrightarrow>
              length (pieceObjs h) \<le> a \<and> a < length (pieceObjs h'))"
    using n' cp ra'_lt le row' by auto
  have tail: "ownedBoard h h' ras'"
    using ih(2) le unfolding ownedBoard_def by (meson order_trans)
  from head tail r(2) ih(3) ext show ?case by (simp add: ownedBoard_def)
qed

lemma set_setRow: "x \<in> set (setRow rw c v) \<Longrightarrow> x \<in> set rw \<or> x = v \<or> x = None"
  unfolding setRow_def by (auto split: if_splits dest: set_update_subset_insert[THEN subsetD])

lemma lengths_setRef [simp]:
  "length (pieceObjs (setRef h b r c v)) = length (pieceObjs h)"
  "length (rowObjs (setRef h b r c v)) = length (rowObjs h)"
  by (simp_all add: setRef_def)

lemma lengths_updPiece [simp]:
  "length (pieceObjs (updPiece h a f)) = length (pieceObjs h)"
  "rowObjs (updPiece h a f) = rowObjs h"
  by (simp_all add: updPiece_def)

lemma ownedBoard_updPiece: "ownedBoard h h' b \<Longrightarrow> ownedBoard h (updPiece h' a f) b"
  by (simp add: ownedBoard_def)

lemma ownedBoard_setRef:
  assumes "ownedBoard h h' b" and "0 \<le> r" and "r < int (length b)"
    and "case v of None \<Rightarrow> True | Some a \<Rightarrow> length (pieceObjs h) \<le> a \<and> a < length (pieceObjs h')"
  shows "ownedBoard h (setRef h' b r c v) b"
proof -
  let ?ra = "b ! nat r"
  from assms(2,3) have mem: "?ra \<in> set b" by (simp add: nat_less_iff)
  with assms(1) have lt: "?ra < length (rowObjs h')" by (simp add: ownedBoard_def)
  have cells: "length (pieceObjs h) \<le> a \<and> a < length (pieceObjs h')"
    if "ra \<in> set b" "Some a \<in> set (rowObjs (setRef h' b r c v) ! ra)" for ra a
  proof (cases "ra = ?ra")
    case True
    with that(2) lt have "Some a \<in> set (setRow (rowObjs h' ! ?ra) c v)"
      by (simp add: setRef_def)
    from set_setRow[OF this] have "Some a \<in> set (rowObjs h' ! ?ra) \<or> Some a = v" by simp
    with assms(1,4) mem show ?thesis by (auto simp: ownedBoard_def)
  next
    case False
    with that(2) have "Some a \<in> set (rowObjs h' ! ra)" by (simp add: setRef_def)
    with assms(1) that(1) show ?thesis by (auto simp: ownedBoard_def)
  qed
  from assms(1) cells show ?thesis by (simp add: ownedBoard_def)
qed

lemma refAt_owned:
  assumes "ownedBoard h h' b" and "refAt h' b r c = Some a"
  shows "length (pieceObjs h) \<le> a \<and> a < length (pieceObjs h')"
proof -
  from assms(2) have r: "0 \<le> r" "r < int (length b)"
    by (auto simp: refAt_def split: if_splits)
  then have mem: "b ! nat r \<in> set b" by (simp add: nat_less_iff)
  from assms(2) r have c: "0 \<le> c" "c < int (length (rowObjs h' ! (b ! nat r)))"
    "rowObjs h' ! (b ! nat r) ! nat c = Some a"
    by (auto simp: refAt_def Let_def split: if_splits)
  from c(1,2) have "nat c < length (rowObjs h' ! (b ! nat r))" by linarith
  from nth_mem[OF this] c(3) have "Some a \<in> set (rowObjs h' ! (b ! nat r))" by simp
  with assms(1) mem show ?thesis by (auto simp: ownedBoard_def)
qed

lemma owned_row_fresh:
  assumes "ownedBoard h h' b" and "0 \<le> r" and "r < int (length b)"
  shows "length (rowObjs h) \<le> b ! nat r"
proof -
  from assms(2,3) have "b ! nat r \<in> set b" by (simp add: nat_less_iff)
  with assms(1) show ?thesis by (simp add: ownedBoard_def)
qed

text \<open>The invariant of the assignments: the store extends \<open>h\<close>, and the board written to is
  made of objects allocated after \<open>h\<close>.\<close>

lemma step_setRef:
  assumes "extends h h' \<and> ownedBoard h h' b" and "0 \<le> r" and "r < int (length b)"
    and "case v of None \<Rightarrow> True | Some a \<Rightarrow> length (pieceObjs h) \<le> a \<and> a < length (pieceObjs h')"
  shows "extends h (setRef h' b r c v) \<and> ownedBoard h (setRef h' b r c v) b"
  using assms extends_setRef[of h h' b r c v] ownedBoard_setRef[of h h' b r v c]
    owned_row_fresh[of h h' b r]
  by blast

lemma step_updPiece:
  assumes "extends h h' \<and> ownedBoard h h' b" and "length (pieceObjs h) \<le> a"
  shows "extends h (updPiece h' a f) \<and> ownedBoard h (updPiece h' a f) b"
  using assms extends_updPiece ownedBoard_updPiece by blast

lemma refAt_range: "refAt h b r c = Some a \<Longrightarrow> 0 \<le> r \<and> r < int (length b)"
  by (auto simp: refAt_def split: if_splits)

lemma step_removeEnPassantPawn:
  assumes "extends h h' \<and> ownedBoard h h' b"
  shows "extends h (removeEnPassantPawn move b h') \<and> ownedBoard h (removeEnPassantPawn move b h') b"
proof (cases "risEnPassant move \<and> refAt h' b (row (rfrom move)) (col (rto move)) \<noteq> None")
  case True
  then obtain a where "refAt h' b (row (rfrom move)) (col (rto move)) = Some a" by auto
  from refAt_range[OF this] True show ?thesis
    unfolding removeEnPassantPawn_def using step_setRef[OF assms, of _ None] by simp
next
  case False
  with assms show ?thesis by (auto simp: removeEnPassantPawn_def)
qed

lemma step_relocatePiece:
  assumes inv: "extends h h' \<and> ownedBoard h h' b"
    and pa: "length (pieceObjs h) \<le> pa \<and> pa < length (pieceObjs h')"
    and fr: "0 \<le> row (rfrom move) \<and> row (rfrom move) < int (length b)"
    and t: "0 \<le> row (rto move) \<and> row (rto move) < int (length b)"
  shows "extends h (relocatePiece move b pa h') \<and> ownedBoard h (relocatePiece move b pa h') b"
proof -
  let ?h2 = "setRef h' b (row (rto move)) (col (rto move)) (Some pa)"
  have 2: "extends h ?h2 \<and> ownedBoard h ?h2 b"
    using step_setRef[OF inv, of "row (rto move)" "Some pa"] t pa by simp
  let ?h3 = "setRef ?h2 b (row (rfrom move)) (col (rfrom move)) None"
  have 3: "extends h ?h3 \<and> ownedBoard h ?h3 b"
    using step_setRef[OF 2, of "row (rfrom move)" None] fr by simp
  show ?thesis
    unfolding relocatePiece_def Let_def using step_updPiece[OF 3] pa by simp
qed

lemma step_relocateRook:
  assumes inv: "extends h h' \<and> ownedBoard h h' b"
  shows "extends h (relocateRook move b backRank h') \<and> ownedBoard h (relocateRook move b backRank h') b"
proof -
  define rookCol :: int where "rookCol = (if col (rto move) = 6 then 7 else 0)"
  define rookDest :: int where "rookDest = (if col (rto move) = 6 then 5 else 3)"
  show ?thesis
  proof (cases "if risCastling move then refAt h' b backRank rookCol else None")
    case None
    with inv show ?thesis
      unfolding relocateRook_def Let_def rookCol_def[symmetric] rookDest_def[symmetric]
      by simp
  next
    case (Some ra)
    then have ref: "refAt h' b backRank rookCol = Some ra" by (simp split: if_splits)
    from refAt_owned[OF _ ref] inv
    have ra: "length (pieceObjs h) \<le> ra \<and> ra < length (pieceObjs h')" by blast
    note rng = refAt_range[OF ref]
    let ?h1 = "setRef h' b backRank rookDest (Some ra)"
    have 1: "extends h ?h1 \<and> ownedBoard h ?h1 b"
      using step_setRef[OF inv, of backRank "Some ra"] rng ra by simp
    let ?h2 = "setRef ?h1 b backRank rookCol None"
    have 2: "extends h ?h2 \<and> ownedBoard h ?h2 b"
      using step_setRef[OF 1, of backRank None] rng by simp
    from step_updPiece[OF 2, of ra] ra Some show ?thesis
      unfolding relocateRook_def Let_def rookCol_def[symmetric] rookDest_def[symmetric]
      by simp
  qed
qed

lemma step_promotePiece:
  assumes "extends h h' \<and> ownedBoard h h' b" and "length (pieceObjs h) \<le> pa"
  shows "extends h (promotePiece move pa h') \<and> ownedBoard h (promotePiece move pa h') b"
  using assms step_updPiece[OF assms]
  by (simp add: promotePiece_def split: option.splits)

lemma lengths_stages [simp]:
  "length (pieceObjs (removeEnPassantPawn move b h)) = length (pieceObjs h)"
  "length (pieceObjs (relocatePiece move b pa h)) = length (pieceObjs h)"
  "length (pieceObjs (relocateRook move b br h)) = length (pieceObjs h)"
  "length (pieceObjs (promotePiece move pa h)) = length (pieceObjs h)"
  by (simp_all add: removeEnPassantPawn_def relocatePiece_def relocateRook_def promotePiece_def
      Let_def split: option.splits)

text \<open>What a successful \<open>executeMoveH\<close> consists of.\<close>

lemma executeMoveH_Inr:
  assumes "executeMoveH move s h = Inr (s', h')"
  obtains newBoard h0 pa where
    "copyRows h (rboard s) = (newBoard, h0)"
    "refAt h0 newBoard (row (rfrom move)) (col (rfrom move)) = Some pa"
    "0 \<le> row (rto move) \<and> row (rto move) < int (length newBoard)"
    "h' = promotePiece move pa
            (relocateRook move newBoard
               (if color (pieceObjs (relocatePiece move newBoard pa
                     (removeEnPassantPawn move newBoard h0)) ! pa) = White then 7 else 0)
               (relocatePiece move newBoard pa (removeEnPassantPawn move newBoard h0)))"
    "rboard s' = newBoard"
    "rcurrentTurn s' = (if rcurrentTurn s = White then Black else White)"
    "rmoveCount s' = rmoveCount s + 1"
proof -
  obtain newBoard h0 where cp: "copyRows h (rboard s) = (newBoard, h0)"
    by (cases "copyRows h (rboard s)")
  from assms cp obtain pa where
    pa: "refAt h0 newBoard (row (rfrom move)) (col (rfrom move)) = Some pa"
    by (auto simp: executeMoveH_def split: option.splits)
  from assms cp pa have t: "0 \<le> row (rto move) \<and> row (rto move) < int (length newBoard)"
    by (auto simp: executeMoveH_def Let_def split: if_splits)
  from assms have rest:
    "h' = promotePiece move pa
            (relocateRook move newBoard
               (if color (pieceObjs (relocatePiece move newBoard pa
                     (removeEnPassantPawn move newBoard h0)) ! pa) = White then 7 else 0)
               (relocatePiece move newBoard pa (removeEnPassantPawn move newBoard h0)))"
    "rboard s' = newBoard"
    "rcurrentTurn s' = (if rcurrentTurn s = White then Black else White)"
    "rmoveCount s' = rmoveCount s + 1"
    unfolding executeMoveH_def cp prod.case pa option.case Let_def
    by (auto split: if_splits)
  from that[OF cp pa t rest] show ?thesis .
qed

lemma executeMoveH_extends:
  assumes "executeMoveH move s h = Inr (s', h')"
  shows "extends h h'"
proof -
  from assms obtain newBoard h0 pa where
    cp: "copyRows h (rboard s) = (newBoard, h0)"
    and pa: "refAt h0 newBoard (row (rfrom move)) (col (rfrom move)) = Some pa"
    and t: "0 \<le> row (rto move) \<and> row (rto move) < int (length newBoard)"
    and h': "h' = promotePiece move pa
            (relocateRook move newBoard
               (if color (pieceObjs (relocatePiece move newBoard pa
                     (removeEnPassantPawn move newBoard h0)) ! pa) = White then 7 else 0)
               (relocatePiece move newBoard pa (removeEnPassantPawn move newBoard h0)))"
    by (rule executeMoveH_Inr)
  from copyRows_props[OF cp] have 0: "extends h h0 \<and> ownedBoard h h0 newBoard" by simp
  from refAt_owned[OF _ pa] 0 have fresh: "length (pieceObjs h) \<le> pa \<and> pa < length (pieceObjs h0)"
    by blast
  note fr = refAt_range[OF pa]
  note 1 = step_removeEnPassantPawn[OF 0, of move]
  have 4: "extends h (relocatePiece move newBoard pa (removeEnPassantPawn move newBoard h0)) \<and>
           ownedBoard h (relocatePiece move newBoard pa (removeEnPassantPawn move newBoard h0)) newBoard"
    using step_relocatePiece[OF 1 _ fr t, of pa] fresh by simp
  note 5 = step_relocateRook[OF 4, of move]
  from step_promotePiece[OF 5] fresh show ?thesis unfolding h' by blast
qed

lemma applyMoveToStateH_extends:
  assumes "applyMoveToStateH fromPos toPos s h = (s', h')"
  shows "extends h h'"
proof -
  obtain newBoard h0 where cp: "copyRows h (rboard s) = (newBoard, h0)"
    by (cases "copyRows h (rboard s)")
  from copyRows_props[OF cp] have 0: "extends h h0 \<and> ownedBoard h h0 newBoard" by simp
  show ?thesis
  proof (cases "refAt h0 newBoard (row fromPos) (col fromPos)")
    case None
    with assms cp 0 show ?thesis by (simp add: applyMoveToStateH_def)
  next
    case (Some pa)
    show ?thesis
    proof (cases "0 \<le> row toPos \<and> row toPos < int (length newBoard)")
      case False
      with assms cp Some 0 show ?thesis by (auto simp: applyMoveToStateH_def)
    next
      case True
      from refAt_owned[OF _ Some] 0
      have fresh: "length (pieceObjs h) \<le> pa \<and> pa < length (pieceObjs h0)" by blast
      note fr = refAt_range[OF Some]
      let ?h1 = "setRef h0 newBoard (row toPos) (col toPos) (Some pa)"
      have 1: "extends h ?h1 \<and> ownedBoard h ?h1 newBoard"
        using step_setRef[OF 0, of "row toPos" "Some pa"] True fresh by simp
      let ?h2 = "setRef ?h1 newBoard (row fromPos) (col fromPos) None"
      have 2: "extends h ?h2 \<and> ownedBoard h ?h2 newBoard"
        using step_setRef[OF 1, of "row fromPos" None] fr by simp
      from step_updPiece[OF 2, of pa] fresh assms cp Some True show ?thesis
        by (auto simp: applyMoveToStateH_def Let_def)
    qed
  qed
qed

text \<open>Reading a state of addresses in a larger store.\<close>

lemma wfCells_iff: "wfCells h cells \<longleftrightarrow> (\<forall>a. Some a \<in> set cells \<longrightarrow> a < length (pieceObjs h))"
proof -
  have "(case cell of None \<Rightarrow> True | Some a \<Rightarrow> a < length (pieceObjs h)) \<longleftrightarrow>
        (\<forall>a. cell = Some a \<longrightarrow> a < length (pieceObjs h))" for cell
    by (cases cell) simp_all
  then show ?thesis unfolding wfCells_def list_all_iff by blast
qed

lemma deref_cells_cong:
  assumes "wfCells h cells" and "\<And>a. a < length (pieceObjs h) \<Longrightarrow> P ! a = pieceObjs h ! a"
  shows "map (map_option (\<lambda>a. P ! a)) cells = map (map_option (\<lambda>a. pieceObjs h ! a)) cells"
proof (rule map_cong[OF refl])
  fix cell assume mem: "cell \<in> set cells"
  show "map_option (\<lambda>a. P ! a) cell = map_option (\<lambda>a. pieceObjs h ! a) cell"
  proof (cases cell)
    case None
    then show ?thesis by simp
  next
    case (Some a)
    with mem assms(1) have "a < length (pieceObjs h)" by (simp add: wfCells_iff)
    with assms(2) Some show ?thesis by simp
  qed
qed

lemma wfState_rows:
  "wfState h s \<Longrightarrow> ra \<in> set (rboard s) \<Longrightarrow> ra < length (rowObjs h) \<and> wfCells h (rowObjs h ! ra)"
  by (auto simp: wfState_def wfCells_def list_all_iff)

lemma absBoard_extends:
  assumes "extends h h'" and "\<forall>ra \<in> set b. ra < length (rowObjs h) \<and> wfCells h (rowObjs h ! ra)"
  shows "absBoard h' b = absBoard h b"
proof -
  have "map (map_option (\<lambda>a. pieceObjs h' ! a)) (rowObjs h' ! ra) =
        map (map_option (\<lambda>a. pieceObjs h ! a)) (rowObjs h ! ra)" if "ra \<in> set b" for ra
  proof -
    from that assms(2) have ra: "ra < length (rowObjs h)" "wfCells h (rowObjs h ! ra)" by auto
    from deref_cells_cong[OF ra(2), of "pieceObjs h'"] extends_nth(1)[OF assms(1)]
    show ?thesis using extends_nth(2)[OF assms(1) ra(1)] by simp
  qed
  then show ?thesis by (simp add: absBoard_def)
qed

lemma absMove_extends:
  assumes "extends h h'" and "wfMove h m"
  shows "absMove h' m = absMove h m"
  using assms extends_nth(1)[OF assms(1)]
  by (cases "rcapturedPiece m") (auto simp: absMove_def wfMove_def)

lemma absState_extends:
  assumes "extends h h'" and "wfState h s"
  shows "absState h' s = absState h s"
proof -
  have b: "absBoard h' (rboard s) = absBoard h (rboard s)"
    using absBoard_extends[OF assms(1)] wfState_rows[OF assms(2)] by blast
  have mh: "map (absMove h') (rmoveHistory s) = map (absMove h) (rmoveHistory s)"
    using absMove_extends[OF assms(1)] assms(2) by (auto simp: wfState_def list_all_iff)
  have cp: "map (\<lambda>a. pieceObjs h' ! a) (rcapturedPieces s) =
            map (\<lambda>a. pieceObjs h ! a) (rcapturedPieces s)"
    using extends_nth(1)[OF assms(1)] assms(2) by (auto simp: wfState_def list_all_iff)
  have lm: "map_option (absMove h') (rlastMove s) = map_option (absMove h) (rlastMove s)"
    using absMove_extends[OF assms(1)] assms(2)
    by (cases "rlastMove s") (auto simp: wfState_def)
  from b mh cp lm show ?thesis by (simp add: absState_def)
qed

text \<open>The copy of a board stands for the same board of values.\<close>

lemma copyCells_abs:
  "copyCells h cells = (cells', h') \<Longrightarrow> wfCells h cells \<Longrightarrow>
     map (map_option (\<lambda>a. pieceObjs h' ! a)) cells' = map (map_option (\<lambda>a. pieceObjs h ! a)) cells"
proof (induction h cells arbitrary: cells' h' rule: copyCells.induct)
  case (1 h)
  then show ?case by simp
next
  case (2 h cells)
  then obtain cs where cs: "copyCells h cells = (cs, h')" "cells' = None # cs"
    by (auto simp: Let_def split: prod.splits)
  from "2.IH"[OF cs(1)] "2.prems"(2) cs(2) show ?case by (simp add: wfCells_def)
next
  case (3 h a cells)
  obtain a' h1 where n: "newPieceObj h (pieceObjs h ! a) = (a', h1)"
    by (cases "newPieceObj h (pieceObjs h ! a)")
  with "3.prems" obtain cs where cs: "copyCells h1 cells = (cs, h')" "cells' = Some a' # cs"
    by (auto simp: Let_def split: prod.splits)
  from n have n': "a' = length (pieceObjs h)" "pieceObjs h1 = pieceObjs h @ [pieceObjs h ! a]"
    by (auto simp: newPieceObj_def)
  from "3.prems"(2) have wf: "a < length (pieceObjs h)" "wfCells h cells"
    by (simp_all add: wfCells_def)
  from wf(2) n'(2) have wf1: "wfCells h1 cells"
    by (auto simp: wfCells_iff)
  from copyCells_props[OF cs(1)] have e: "extends h1 h'" by simp
  have head: "pieceObjs h' ! a' = pieceObjs h ! a"
    using extends_nth(1)[OF e, of a'] n' by simp
  have "map (map_option (\<lambda>a. pieceObjs h1 ! a)) cells = map (map_option (\<lambda>a. pieceObjs h ! a)) cells"
    by (rule deref_cells_cong[OF wf(2)]) (simp add: n'(2) nth_append)
  with "3.IH"[OF n[symmetric] refl cs(1) wf1] head cs(2) show ?case by simp
qed

lemma copyRows_abs:
  "copyRows h b = (b', h') \<Longrightarrow>
   \<forall>ra \<in> set b. ra < length (rowObjs h) \<and> wfCells h (rowObjs h ! ra) \<Longrightarrow>
   absBoard h' b' = absBoard h b"
proof (induction h b arbitrary: b' h' rule: copyRows.induct)
  case (1 h)
  then show ?case by (simp add: absBoard_def)
next
  case (2 h ra ras)
  obtain cells h1 where c: "copyCells h (rowObjs h ! ra) = (cells, h1)"
    by (cases "copyCells h (rowObjs h ! ra)")
  obtain ra' h2 where n: "newRowObj h1 cells = (ra', h2)"
    by (cases "newRowObj h1 cells")
  with c "2.prems" obtain ras' where r: "copyRows h2 ras = (ras', h')" "b' = ra' # ras'"
    by (auto simp: Let_def split: prod.splits)
  from "2.prems"(2) have wf: "ra < length (rowObjs h)" "wfCells h (rowObjs h ! ra)"
    "\<forall>x \<in> set ras. x < length (rowObjs h) \<and> wfCells h (rowObjs h ! x)"
    by simp_all
  from copyCells_props[OF c] have cp: "extends h h1" "rowObjs h1 = rowObjs h" by simp_all
  from n have n': "ra' = length (rowObjs h1)" "rowObjs h2 = rowObjs h1 @ [cells]"
    "pieceObjs h2 = pieceObjs h1"
    by (auto simp: newRowObj_def)
  have e12: "extends h1 h2" using extends_newRowObj[OF n] .
  have e02: "extends h h2" using extends_trans[OF cp(1) e12] .
  from copyRows_props[OF r(1)] have e2: "extends h2 h'" by simp
  have wf2: "\<forall>x \<in> set ras. x < length (rowObjs h2) \<and> wfCells h2 (rowObjs h2 ! x)"
  proof
    fix x assume x: "x \<in> set ras"
    with wf(3) have xw: "x < length (rowObjs h)" "wfCells h (rowObjs h ! x)" by auto
    from extends_lengths[OF e02] xw(1) have "x < length (rowObjs h2)" by simp
    moreover have "rowObjs h2 ! x = rowObjs h ! x" using extends_nth(2)[OF e02 xw(1)] .
    moreover have "wfCells h2 (rowObjs h ! x)"
      using xw(2) extends_lengths[OF e02] by (fastforce simp: wfCells_iff)
    ultimately show "x < length (rowObjs h2) \<and> wfCells h2 (rowObjs h2 ! x)" by simp
  qed
  from "2.IH"[OF c[symmetric] refl n[symmetric] refl r(1) wf2]
  have ih: "absBoard h' ras' = absBoard h2 ras" .
  have tail: "absBoard h2 ras = absBoard h ras"
    using absBoard_extends[OF e02 wf(3)] .
  have ra'_lt: "ra' < length (rowObjs h2)" using n' by simp
  have row': "rowObjs h' ! ra' = cells"
    using extends_nth(2)[OF e2 ra'_lt] n' by simp
  have cells_wf: "wfCells h2 cells"
    using copyCells_props[OF c] n'(3) by (simp add: wfCells_iff)
  have "map (map_option (\<lambda>a. pieceObjs h' ! a)) cells = map (map_option (\<lambda>a. pieceObjs h2 ! a)) cells"
    by (rule deref_cells_cong[OF cells_wf]) (rule extends_nth(1)[OF e2])
  also have "\<dots> = map (map_option (\<lambda>a. pieceObjs h ! a)) (rowObjs h ! ra)"
    using copyCells_abs[OF c wf(2)] n'(3) by simp
  finally have head: "map (map_option (\<lambda>a. pieceObjs h' ! a)) (rowObjs h' ! ra') =
      map (map_option (\<lambda>a. pieceObjs h ! a)) (rowObjs h ! ra)"
    using row' by simp
  from head ih tail r(2) show ?case by (simp add: absBoard_def)
qed

lemma absBoard_refBoard:
  "absBoard h b = map (map (map_option (\<lambda>a. pieceObjs h ! a))) (refBoard h b)"
  by (simp add: absBoard_def refBoard_def)

lemma refAt_refBoard: "refAt h b r c = cellAt (refBoard h b) r c"
  by (auto simp: refAt_def cellAt_def refBoard_def Let_def)

lemma cellAt_map: "cellAt (map (map (map_option g)) B) r c = map_option g (cellAt B r c)"
  by (auto simp: cellAt_def Let_def)

lemma cellAt_absBoard:
  "cellAt (absBoard h b) r c = map_option (\<lambda>a. pieceObjs h ! a) (refAt h b r c)"
  by (simp add: absBoard_refBoard refAt_refBoard cellAt_map)

lemma isValidMove_source_and_row:
  assumes "isValidMove m s"
  shows "\<exists>p. pieceAt s (from m) = Some p" and "0 \<le> row (to m) \<and> row (to m) \<le> 7"
proof -
  from assms obtain p where p: "pieceAt s (from m) = Some p"
    and "to m \<in> set (getValidMoves (from m) s)"
    unfolding isValidMove_char by blast
  then show "\<exists>p. pieceAt s (from m) = Some p" and "0 \<le> row (to m) \<and> row (to m) \<le> 7"
    using getValidMoves_rows by blast+
qed

lemma executeMoveH_legal:
  assumes wf: "wfState h s" and valid: "isValidBoard (board (absState h s))"
    and legal: "isValidMove (absMove h move) (absState h s)"
  shows "\<exists>s' h'. executeMoveH move s h = Inr (s', h')"
proof -
  obtain newBoard h0 where cp: "copyRows h (rboard s) = (newBoard, h0)"
    by (cases "copyRows h (rboard s)")
  have rows: "\<forall>ra \<in> set (rboard s). ra < length (rowObjs h) \<and> wfCells h (rowObjs h ! ra)"
    using wfState_rows[OF wf] by blast
  have abs0: "absBoard h0 newBoard = absBoard h (rboard s)"
    using copyRows_abs[OF cp rows] .
  from valid have "length (rboard s) = 8"
    by (simp add: absState_def absBoard_def isValidBoard_def)
  with copyRows_props[OF cp] have len: "length newBoard = 8" by simp
  from isValidMove_source_and_row[OF legal]
  obtain p where p: "pieceAt (absState h s) (rfrom move) = Some p"
    and t: "0 \<le> row (rto move) \<and> row (rto move) \<le> 7"
    by (auto simp: absMove_def)
  from p have "cellAt (absBoard h0 newBoard) (row (rfrom move)) (col (rfrom move)) = Some p"
    by (simp add: pieceAt_def absState_def abs0)
  then obtain pa where pa: "refAt h0 newBoard (row (rfrom move)) (col (rfrom move)) = Some pa"
    by (auto simp: cellAt_absBoard)
  show ?thesis
    unfolding executeMoveH_def cp prod.case pa option.case Let_def
    using t len by auto
qed

text \<open>Claim C3. Let a state of addresses \<open>s\<close> be well formed in the store \<open>h\<close> and stand for a
  state with an 8x8 board, and let \<open>isValidMove\<close> accept the move. Then \<open>executeMove\<close> returns
  a state \<open>s'\<close> and a store \<open>h'\<close>; the turn of \<open>s'\<close> differs from that of \<open>s\<close> and its move count is
  one more; every object of \<open>h\<close> is unchanged in \<open>h'\<close>; and the input state stands in \<open>h'\<close> for
  the same board, history, captured pieces and flags as in \<open>h\<close>.\<close>

theorem executeMove_turn_and_frame:
  assumes "wfState h s" and "isValidBoard (board (absState h s))"
    and "isValidMove (absMove h move) (absState h s)"
  shows "\<exists>s' h'. executeMoveH move s h = Inr (s', h') \<and>
           rcurrentTurn s' \<noteq> rcurrentTurn s \<and>
           currentTurn (absState h' s') \<noteq> currentTurn (absState h s) \<and>
           rmoveCount s' = rmoveCount s + 1 \<and>
           extends h h' \<and> absState h' s = absState h s"
proof -
  from executeMoveH_legal[OF assms] obtain s' h' where
    ex: "executeMoveH move s h = Inr (s', h')" by blast
  from ex have turn: "rcurrentTurn s' = (if rcurrentTurn s = White then Black else White)"
    and count: "rmoveCount s' = rmoveCount s + 1"
    by (rule executeMoveH_Inr; simp)+
  have ext: "extends h h'" using executeMoveH_extends[OF ex] .
  have same: "absState h' s = absState h s" using absState_extends[OF ext assms(1)] .
  from turn have "rcurrentTurn s' \<noteq> rcurrentTurn s" by (cases "rcurrentTurn s") auto
  with ex count ext same show ?thesis by (auto simp: absState_def)
qed

lemma castlingReadyStore_abs: "absState castlingReadyStore castlingReadyRef = castlingReady"
  by code_simp

lemma castleKingsideRef_abs: "absMove castlingReadyStore castleKingsideRef = castleKingside"
  by code_simp

lemma castlingReadyStore_wf: "wfState castlingReadyStore castlingReadyRef"
  by code_simp

theorem executeMove_turn_and_frame_witness:
  "wfState castlingReadyStore castlingReadyRef \<and>
   isValidBoard (board (absState castlingReadyStore castlingReadyRef)) \<and>
   isValidMove (absMove castlingReadyStore castleKingsideRef)
     (absState castlingReadyStore castlingReadyRef) \<and>
   (\<exists>s' h'. executeMoveH castleKingsideRef castlingReadyRef castlingReadyStore = Inr (s', h') \<and>
      rcurrentTurn s' = Black \<and> rmoveCount s' = 1 \<and>
      extends castlingReadyStore h' \<and> absState h' castlingReadyRef = castlingReady)"
proof -
  have v: "isValidBoard (board (absState castlingReadyStore castlingReadyRef))"
    using castlingReady_valid by (simp add: castlingReadyStore_abs)
  have l: "isValidMove (absMove castlingReadyStore castleKingsideRef)
     (absState castlingReadyStore castlingReadyRef)"
    using castlingReady_validator(1) by (simp add: castlingReadyStore_abs castleKingsideRef_abs)
  have t: "rcurrentTurn castlingReadyRef = White" "rmoveCount castlingReadyRef = 0"
    by (simp_all add: castlingReadyRef_def)
  from executeMove_turn_and_frame[OF castlingReadyStore_wf v l]
  obtain s' h' where
    "executeMoveH castleKingsideRef castlingReadyRef castlingReadyStore = Inr (s', h')"
    "rcurrentTurn s' \<noteq> rcurrentTurn castlingReadyRef"
    "rmoveCount s' = rmoveCount castlingReadyRef + 1"
    "extends castlingReadyStore h'"
    "absState h' castlingReadyRef = absState castlingReadyStore castlingReadyRef"
    by blast
  with t have "executeMoveH castleKingsideRef castlingReadyRef castlingReadyStore = Inr (s', h') \<and>
      rcurrentTurn s' = Black \<and> rmoveCount s' = 1 \<and>
      extends castlingReadyStore h' \<and> absState h' castlingReadyRef = castlingReady"
    by (cases "rcurrentTurn s'") (simp_all add: castlingReadyStore_abs)
  with castlingReadyStore_wf v l show ?thesis by blast
qed

section \<open>The bound on the sliding loop\<close>

lemma slideFrom_offBoard: "\<not> isPositionOnBoard cur \<Longrightarrow> slideFrom n p d s cur = []"
  by (cases n) simp_all

lemma slideFrom_fuel_gen:
  assumes dec: "\<And>pos. isPositionOnBoard pos \<Longrightarrow> \<phi> (addOffset pos d) < \<phi> pos"
    and "\<phi> cur \<le> n" and "\<phi> cur \<le> n'"
  shows "slideFrom n p d s cur = slideFrom n' p d s cur"
  using assms(2,3)
proof (induction n arbitrary: n' cur)
  case 0
  with dec[of cur] have "\<not> isPositionOnBoard cur" by auto
  then show ?case by (simp add: slideFrom_offBoard)
next
  case (Suc n)
  show ?case
  proof (cases "isPositionOnBoard cur")
    case False
    then show ?thesis by (simp add: slideFrom_offBoard)
  next
    case True
    from dec[OF True] Suc.prems obtain k where n': "n' = Suc k"
      by (cases n') auto
    from dec[OF True] Suc.prems n' have "\<phi> (addOffset cur d) \<le> n" "\<phi> (addOffset cur d) \<le> k"
      by simp_all
    from Suc.IH[OF this] show ?thesis by (simp add: n' split: option.splits)
  qed
qed

text \<open>For each of the eight directions, 8 iterations are all the loop can make: any larger
  bound gives the same list.\<close>

lemma slideFrom_fuel:
  assumes "d \<in> set queenDirections"
  shows "slideFrom (8 + j) p d s cur = slideFrom 8 p d s cur"
proof (cases "isPositionOnBoard cur")
  case False
  then show ?thesis by (simp add: slideFrom_offBoard)
next
  case True
  define \<phi> :: "Position \<Rightarrow> nat" where
    "\<phi> pos = (if fst d = 1 then nat (8 - row pos)
              else if fst d = - 1 then nat (row pos + 1)
              else if snd d = 1 then nat (8 - col pos)
              else nat (col pos + 1))" for pos
  from assms have d: "fst d = 1 \<or> fst d = - 1 \<or> (fst d = 0 \<and> (snd d = 1 \<or> snd d = - 1))"
    by (auto simp: queenDirections_def)
  have dec: "\<phi> (addOffset pos d) < \<phi> pos" if "isPositionOnBoard pos" for pos
    using that d by (auto simp: \<phi>_def addOffset_def isPositionOnBoard_def)
  from True have "\<phi> cur \<le> 8" by (auto simp: \<phi>_def isPositionOnBoard_def)
  then have "\<phi> cur \<le> 8 + j" by simp
  from slideFrom_fuel_gen[of \<phi> d cur "8 + j" 8 p s, OF dec this \<open>\<phi> cur \<le> 8\<close>]
  show ?thesis .
qed

lemma directions_in_queenDirections:
  "set bishopDirections \<subseteq> set queenDirections" "set rookDirections \<subseteq> set queenDirections"
  by (auto simp: bishopDirections_def rookDirections_def queenDirections_def)

section \<open>The store model and the model of values agree\<close>

lemma absBoard_derefBoard: "absBoard h b = derefBoard (pieceObjs h) (refBoard h b)"
  by (simp add: absBoard_def derefBoard_def refBoard_def)

lemma cellAt_derefBoard: "cellAt (derefBoard ps rb) r c = map_option (\<lambda>a. ps ! a) (cellAt rb r c)"
  by (simp add: derefBoard_def cellAt_map)

lemma hasRow_derefBoard [simp]: "hasRow (derefBoard ps rb) r = hasRow rb r"
  by (simp add: hasRow_def derefBoard_def)

lemma map_setRow:
  assumes "g None = None"
  shows "map g (setRow rw c v) = setRow (map g rw) c (g v)"
  using assms by (simp add: setRow_def map_update)

lemma derefBoard_setCell:
  "derefBoard ps (setCell rb r c v) = setCell (derefBoard ps rb) r c (map_option (\<lambda>a. ps ! a) v)"
proof (cases "nat r < length rb")
  case True
  then show ?thesis
    by (simp add: derefBoard_def setCell_def map_update map_setRow)
next
  case False
  then have "length rb \<le> nat r" by simp
  then show ?thesis by (simp add: derefBoard_def setCell_def list_update_beyond)
qed

lemma map_if_nth_update:
  assumes "distinct xs" and "i < length xs"
  shows "map (\<lambda>x. if x = xs ! i then y else f x) xs = (map f xs)[i := y]"
proof (rule nth_equalityI)
  show "length (map (\<lambda>x. if x = xs ! i then y else f x) xs) = length ((map f xs)[i := y])"
    by simp
next
  fix j assume "j < length (map (\<lambda>x. if x = xs ! i then y else f x) xs)"
  then have j: "j < length xs" by simp
  with assms have "xs ! j = xs ! i \<longleftrightarrow> j = i" by (simp add: nth_eq_iff_index_eq)
  with j assms(2) show "map (\<lambda>x. if x = xs ! i then y else f x) xs ! j = (map f xs)[i := y] ! j"
    by (simp add: nth_list_update)
qed

lemma refBoard_setRef:
  assumes "distinct b" and "hasRow b r" and "\<forall>ra \<in> set b. ra < length (rowObjs h)"
  shows "refBoard (setRef h b r c v) b = setCell (refBoard h b) r c v"
proof -
  from assms(2) have i: "nat r < length b" unfolding hasRow_def by linarith
  with assms(3) have lt: "b ! nat r < length (rowObjs h)" by simp
  have "refBoard (setRef h b r c v) b =
        map (\<lambda>ra. if ra = b ! nat r then setRow (rowObjs h ! (b ! nat r)) c v else rowObjs h ! ra) b"
    unfolding refBoard_def setRef_def using lt assms(3)
    by (auto simp: nth_list_update)
  also have "\<dots> = (map (\<lambda>ra. rowObjs h ! ra) b)[nat r := setRow (rowObjs h ! (b ! nat r)) c v]"
    by (rule map_if_nth_update[OF assms(1) i])
  also have "\<dots> = setCell (refBoard h b) r c v"
    using i by (simp add: setCell_def refBoard_def)
  finally show ?thesis .
qed

lemma refBoard_updPiece [simp]: "refBoard (updPiece h a f) b = refBoard h b"
  by (simp add: refBoard_def)

lemma pieceObjs_setRef [simp]: "pieceObjs (setRef h b r c v) = pieceObjs h"
  by (simp add: setRef_def)

lemma pieceObjs_updPiece: "pieceObjs (updPiece h a f) = (pieceObjs h)[a := f (pieceObjs h ! a)]"
  by (simp add: updPiece_def)

text \<open>Two boards of one shape with the same cells are the same board.\<close>

lemma board_eqI:
  assumes shape: "map length B = map length B'"
    and cells: "\<And>r c. cellAt B r c = cellAt B' r c"
  shows "B = B'"
proof (rule nth_equalityI)
  from shape show len: "length B = length B'" by (metis length_map)
  fix i assume i: "i < length B"
  with len have i': "i < length B'" by simp
  from shape i i' have rl: "length (B ! i) = length (B' ! i)"
    by (metis nth_map)
  show "B ! i = B' ! i"
  proof (rule nth_equalityI[OF rl])
    fix j assume j: "j < length (B ! i)"
    from cells[of "int i" "int j"] i i' j rl show "B ! i ! j = B' ! i ! j"
      by (simp add: cellAt_def)
  qed
qed

lemma length_setRow_cong:
  "length rw = length rw' \<Longrightarrow> length (setRow rw c v) = length (setRow rw' c v')"
  by (simp add: setRow_def)

lemma shape_setCell_cong:
  assumes "map length B = map length B'"
  shows "map length (setCell B r c v) = map length (setCell B' r c v')"
proof -
  from assms have len: "length B = length B'" by (metis length_map)
  show ?thesis
  proof (cases "nat r < length B")
    case True
    with assms len have "length (B ! nat r) = length (B' ! nat r)" by (metis nth_map)
    from length_setRow_cong[OF this, of c v v'] assms show ?thesis
      by (simp add: setCell_def map_update)
  next
    case False
    with len have "length B \<le> nat r" "length B' \<le> nat r" by simp_all
    with assms show ?thesis by (simp add: setCell_def list_update_beyond)
  qed
qed

lemma shape_derefBoard [simp]: "map length (derefBoard ps rb) = map length rb"
  by (simp add: derefBoard_def)

text \<open>Relocation: the object at address \<open>a\<close>, which stands in no cell but \<open>(rx, cx)\<close>, is
  written to the cell \<open>(ry, cy)\<close>, the cell \<open>(rx, cx)\<close> is cleared, and fields of the object
  are assigned.\<close>

lemma relocate_deref:
  assumes occ: "\<And>r c. cellAt rb r c = Some a \<Longrightarrow> r = rx \<and> c = cx"
    and hx: "hasRow rb rx" and hy: "hasRow rb ry" and a: "a < length ps"
  shows "derefBoard (ps[a := v]) (setCell (setCell rb ry cy (Some a)) rx cx None) =
         setCell (setCell (derefBoard ps rb) ry cy (Some v)) rx cx None"
proof -
  let ?B' = "derefBoard (ps[a := v]) rb" and ?B = "derefBoard ps rb"
  have "derefBoard (ps[a := v]) (setCell (setCell rb ry cy (Some a)) rx cx None) =
        setCell (setCell ?B' ry cy (Some v)) rx cx None"
    using a by (simp add: derefBoard_setCell)
  also have "\<dots> = setCell (setCell ?B ry cy (Some v)) rx cx None"
  proof (rule board_eqI)
    show "map length (setCell (setCell ?B' ry cy (Some v)) rx cx None) =
          map length (setCell (setCell ?B ry cy (Some v)) rx cx None)"
      by (intro shape_setCell_cong) simp
  next
    fix r c
    have hy': "hasRow ?B' ry" "hasRow ?B ry" using hy by simp_all
    have hx': "hasRow (setCell ?B' ry cy (Some v)) rx" "hasRow (setCell ?B ry cy (Some v)) rx"
      using hx by (simp_all add: hasRow_setCell)
    have agree: "cellAt ?B' r c = cellAt ?B r c" if "\<not> (r = rx \<and> c = cx)"
    proof (cases "cellAt rb r c")
      case None
      then show ?thesis by (simp add: cellAt_derefBoard)
    next
      case (Some x)
      with occ[of r c] that have "x \<noteq> a" by auto
      with Some show ?thesis by (simp add: cellAt_derefBoard)
    qed
    show "cellAt (setCell (setCell ?B' ry cy (Some v)) rx cx None) r c =
          cellAt (setCell (setCell ?B ry cy (Some v)) rx cx None) r c"
    proof (cases "r = rx \<and> c = cx")
      case True
      show ?thesis
      proof (cases "0 \<le> cx")
        case True
        with \<open>r = rx \<and> c = cx\<close> show ?thesis
          by (simp add: cellAt_setCell[OF hx'(1)] cellAt_setCell[OF hx'(2)])
      next
        case False
        with \<open>r = rx \<and> c = cx\<close> have "cellAt rb r c = None" by (simp add: cellAt_def Let_def)
        then have "cellAt ?B' r c = cellAt ?B r c" by (simp add: cellAt_derefBoard)
        then show ?thesis
          by (simp add: cellAt_setCell[OF hx'(1)] cellAt_setCell[OF hx'(2)]
              cellAt_setCell[OF hy'(1)] cellAt_setCell[OF hy'(2)])
      qed
    next
      case False
      with agree show ?thesis
        by (simp add: cellAt_setCell[OF hx'(1)] cellAt_setCell[OF hx'(2)]
            cellAt_setCell[OF hy'(1)] cellAt_setCell[OF hy'(2)])
    qed
  qed
  finally show ?thesis .
qed

lemma relocate_cells:
  assumes hx: "hasRow rb rx" and hy: "hasRow rb ry"
  shows "cellAt (setCell (setCell rb ry cy (Some a)) rx cx None) r c =
           (if r = rx \<and> c = cx \<and> 0 \<le> cx then None
            else if r = ry \<and> c = cy \<and> 0 \<le> cy then Some a
            else cellAt rb r c)"
proof -
  from hx have "hasRow (setCell rb ry cy (Some a)) rx" by (simp add: hasRow_setCell)
  then show ?thesis by (simp add: cellAt_setCell hy)
qed

lemma cellAt_Some_nonneg: "cellAt rb r c = Some a \<Longrightarrow> 0 \<le> c"
  by (auto simp: cellAt_def Let_def split: if_splits)

lemma relocate_occ:
  assumes occ: "\<And>r c. cellAt rb r c = Some a \<Longrightarrow> r = rx \<and> c = cx"
    and hx: "hasRow rb rx" and hy: "hasRow rb ry"
    and cell: "cellAt (setCell (setCell rb ry cy (Some a)) rx cx None) r c = Some a"
  shows "r = ry \<and> c = cy \<and> 0 \<le> cy"
proof (cases "r = rx \<and> c = cx \<and> 0 \<le> cx")
  case True
  with cell show ?thesis by (simp add: relocate_cells[OF hx hy])
next
  case notx: False
  show ?thesis
  proof (cases "r = ry \<and> c = cy \<and> 0 \<le> cy")
    case True
    then show ?thesis by simp
  next
    case False
    with notx cell have c: "cellAt rb r c = Some a"
      unfolding relocate_cells[OF hx hy] by (simp split: if_splits)
    from occ[OF c] cellAt_Some_nonneg[OF c] notx show ?thesis by simp
  qed
qed

lemma relocate_other:
  assumes hx: "hasRow rb rx" and hy: "hasRow rb ry"
    and cell: "cellAt (setCell (setCell rb ry cy (Some a)) rx cx None) r c = Some x" and "x \<noteq> a"
  shows "cellAt rb r c = Some x"
proof (cases "r = rx \<and> c = cx \<and> 0 \<le> cx")
  case True
  with cell show ?thesis by (simp add: relocate_cells[OF hx hy])
next
  case notx: False
  show ?thesis
  proof (cases "r = ry \<and> c = cy \<and> 0 \<le> cy")
    case True
    with notx have "cellAt (setCell (setCell rb ry cy (Some a)) rx cx None) r c = Some a"
      unfolding relocate_cells[OF hx hy] by (simp split: if_splits)
    with cell assms(4) show ?thesis by simp
  next
    case False
    with notx cell show ?thesis unfolding relocate_cells[OF hx hy] by (simp split: if_splits)
  qed
qed

lemma relocate_inj:
  assumes inj: "injBoard rb" and occ: "\<And>r c. cellAt rb r c = Some a \<Longrightarrow> r = rx \<and> c = cx"
    and hx: "hasRow rb rx" and hy: "hasRow rb ry"
  shows "injBoard (setCell (setCell rb ry cy (Some a)) rx cx None)"
  unfolding injBoard_def
proof (intro allI impI)
  fix r c r' c' x
  let ?rb' = "setCell (setCell rb ry cy (Some a)) rx cx None"
  assume h: "cellAt ?rb' r c = Some x \<and> cellAt ?rb' r' c' = Some x"
  show "r = r' \<and> c = c'"
  proof (cases "x = a")
    case True
    with h have "cellAt ?rb' r c = Some a" "cellAt ?rb' r' c' = Some a" by simp_all
    from relocate_occ[OF occ hx hy this(1)] relocate_occ[OF occ hx hy this(2)]
    show ?thesis by simp
  next
    case False
    from h have "cellAt ?rb' r c = Some x" "cellAt ?rb' r' c' = Some x" by simp_all
    from relocate_other[OF hx hy this(1) False] relocate_other[OF hx hy this(2) False]
    have "cellAt rb r c = Some x" "cellAt rb r' c' = Some x" .
    with inj show ?thesis unfolding injBoard_def by blast
  qed
qed

lemma clear_inj:
  assumes "injBoard rb" and "hasRow rb r0"
  shows "injBoard (setCell rb r0 c0 None)"
  unfolding injBoard_def
proof (intro allI impI)
  fix r c r' c' a
  assume "cellAt (setCell rb r0 c0 None) r c = Some a \<and>
          cellAt (setCell rb r0 c0 None) r' c' = Some a"
  then have "cellAt rb r c = Some a" "cellAt rb r' c' = Some a"
    unfolding cellAt_setCell[OF assms(2)] by (simp_all split: if_splits)
  with assms(1) show "r = r' \<and> c = c'" unfolding injBoard_def by blast
qed

text \<open>The copy of a board holds every new address in one cell only.\<close>

lemma rowAt_Cons:
  "rowAt (x # xs) c = (if c = 0 then x else if 0 < c then rowAt xs (c - 1) else None)"
  by (auto simp: rowAt_def nat_diff_distrib' nth_Cons split: nat.splits)

lemma cellAt_rowAt:
  "cellAt b r c = (if 0 \<le> r \<and> r < int (length b) then rowAt (b ! nat r) c else None)"
  by (simp add: cellAt_def rowAt_def Let_def)

lemma cellAt_Cons:
  "cellAt (rw # rows) r c =
     (if r = 0 then rowAt rw c else if 0 < r then cellAt rows (r - 1) c else None)"
  by (auto simp: cellAt_rowAt nat_diff_distrib' nth_Cons split: nat.splits)

lemma copyCells_inj:
  "copyCells h cells = (cells', h') \<Longrightarrow>
     (\<forall>c c' a. rowAt cells' c = Some a \<and> rowAt cells' c' = Some a \<longrightarrow> c = c') \<and>
     (\<forall>c a. rowAt cells' c = Some a \<longrightarrow>
            length (pieceObjs h) \<le> a \<and> a < length (pieceObjs h'))"
proof (induction h cells arbitrary: cells' h' rule: copyCells.induct)
  case (1 h)
  then show ?case by (simp add: rowAt_def)
next
  case (2 h cells)
  then obtain cs where cs: "copyCells h cells = (cs, h')" "cells' = None # cs"
    by (auto simp: Let_def split: prod.splits)
  from "2.IH"[OF cs(1)]
  have ih: "\<And>c c' a. rowAt cs c = Some a \<Longrightarrow> rowAt cs c' = Some a \<Longrightarrow> c = c'"
    "\<And>c a. rowAt cs c = Some a \<Longrightarrow> length (pieceObjs h) \<le> a \<and> a < length (pieceObjs h')"
    by blast+
  have inj: "c = c'" if "rowAt cells' c = Some a" "rowAt cells' c' = Some a" for c c' a
  proof -
    from that have "rowAt cs (c - 1) = Some a" "rowAt cs (c' - 1) = Some a" "0 < c" "0 < c'"
      unfolding cs(2) rowAt_Cons by (simp_all split: if_splits)
    with ih(1)[of "c - 1" a "c' - 1"] show ?thesis by simp
  qed
  have rng: "length (pieceObjs h) \<le> a \<and> a < length (pieceObjs h')"
    if "rowAt cells' c = Some a" for c a
  proof -
    from that have "rowAt cs (c - 1) = Some a"
      unfolding cs(2) rowAt_Cons by (simp split: if_splits)
    then show ?thesis by (rule ih(2))
  qed
  from inj rng show ?case by blast
next
  case (3 h a0 cells)
  obtain a' h1 where n: "newPieceObj h (pieceObjs h ! a0) = (a', h1)"
    by (cases "newPieceObj h (pieceObjs h ! a0)")
  with "3.prems" obtain cs where cs: "copyCells h1 cells = (cs, h')" "cells' = Some a' # cs"
    by (auto simp: Let_def split: prod.splits)
  from n have n': "a' = length (pieceObjs h)" "length (pieceObjs h1) = Suc (length (pieceObjs h))"
    by (auto simp: newPieceObj_def)
  from "3.IH"[OF n[symmetric] refl cs(1)]
  have ih: "\<And>c c' a. rowAt cs c = Some a \<Longrightarrow> rowAt cs c' = Some a \<Longrightarrow> c = c'"
    "\<And>c a. rowAt cs c = Some a \<Longrightarrow> length (pieceObjs h1) \<le> a \<and> a < length (pieceObjs h')"
    by blast+
  from copyCells_props[OF cs(1)] have "extends h1 h'" by simp
  from extends_lengths[OF this] n' have lt: "a' < length (pieceObjs h')" by simp
  have cell: "(c = 0 \<and> a = a') \<or> (0 < c \<and> rowAt cs (c - 1) = Some a \<and> a' < a)"
    if "rowAt cells' c = Some a" for c a
  proof (cases "c = 0")
    case True
    with that show ?thesis unfolding cs(2) rowAt_Cons by simp
  next
    case False
    with that have r: "0 < c" "rowAt cs (c - 1) = Some a"
      unfolding cs(2) rowAt_Cons by (simp_all split: if_splits)
    from ih(2)[OF r(2)] n' have "a' < a" by simp
    with r show ?thesis by simp
  qed
  have inj: "c = c'" if "rowAt cells' c = Some a" "rowAt cells' c' = Some a" for c c' a
    using cell[OF that(1)] cell[OF that(2)] ih(1)[of "c - 1" a "c' - 1"] by auto
  have rng: "length (pieceObjs h) \<le> a \<and> a < length (pieceObjs h')"
    if "rowAt cells' c = Some a" for c a
    using cell[OF that] ih(2)[of "c - 1" a] n' lt by auto
  from inj rng show ?case by blast
qed

lemma copyRows_inj:
  "copyRows h b = (b', h') \<Longrightarrow>
     injBoard (refBoard h' b') \<and>
     (\<forall>r c a. cellAt (refBoard h' b') r c = Some a \<longrightarrow>
              length (pieceObjs h) \<le> a \<and> a < length (pieceObjs h')) \<and>
     distinct b' \<and> (\<forall>ra \<in> set b'. length (rowObjs h) \<le> ra \<and> ra < length (rowObjs h'))"
proof (induction h b arbitrary: b' h' rule: copyRows.induct)
  case (1 h)
  then show ?case by (simp add: injBoard_def refBoard_def cellAt_def)
next
  case (2 h ra ras)
  obtain cells h1 where c: "copyCells h (rowObjs h ! ra) = (cells, h1)"
    by (cases "copyCells h (rowObjs h ! ra)")
  obtain ra' h2 where n: "newRowObj h1 cells = (ra', h2)"
    by (cases "newRowObj h1 cells")
  with c "2.prems" obtain ras' where r: "copyRows h2 ras = (ras', h')" "b' = ra' # ras'"
    by (auto simp: Let_def split: prod.splits)
  from copyCells_props[OF c] have cp: "extends h h1" "rowObjs h1 = rowObjs h" by simp_all
  from n have n': "ra' = length (rowObjs h1)" "rowObjs h2 = rowObjs h1 @ [cells]"
    "pieceObjs h2 = pieceObjs h1"
    by (auto simp: newRowObj_def)
  from copyRows_props[OF r(1)] have e2: "extends h2 h'" by simp
  from "2.IH"[OF c[symmetric] refl n[symmetric] refl r(1)]
  have ih: "injBoard (refBoard h' ras')"
    "\<And>r c a. cellAt (refBoard h' ras') r c = Some a \<Longrightarrow>
              length (pieceObjs h2) \<le> a \<and> a < length (pieceObjs h')"
    "distinct ras'" "\<And>x. x \<in> set ras' \<Longrightarrow> length (rowObjs h2) \<le> x \<and> x < length (rowObjs h')"
    by blast+
  from copyCells_inj[OF c]
  have row: "\<And>c c' a. rowAt cells c = Some a \<Longrightarrow> rowAt cells c' = Some a \<Longrightarrow> c = c'"
    "\<And>c a. rowAt cells c = Some a \<Longrightarrow> length (pieceObjs h) \<le> a \<and> a < length (pieceObjs h1)"
    by blast+
  have ra'_lt: "ra' < length (rowObjs h2)" using n' by simp
  have row': "rowObjs h' ! ra' = cells"
    using extends_nth(2)[OF e2 ra'_lt] n' by simp
  have rb: "refBoard h' b' = cells # refBoard h' ras'"
    by (simp add: refBoard_def r(2) row')
  from extends_lengths[OF cp(1)] extends_lengths[OF e2] n'
  have le: "length (pieceObjs h) \<le> length (pieceObjs h2)" "length (pieceObjs h2) \<le> length (pieceObjs h')"
    "length (rowObjs h2) \<le> length (rowObjs h')" "length (rowObjs h) < length (rowObjs h2)"
    using cp(2) by simp_all
  have cell: "(r = 0 \<and> rowAt cells c = Some a \<and> a < length (pieceObjs h2)) \<or>
              (0 < r \<and> cellAt (refBoard h' ras') (r - 1) c = Some a \<and> length (pieceObjs h2) \<le> a)"
    if "cellAt (refBoard h' b') r c = Some a" for r c a
  proof (cases "r = 0")
    case True
    with that have "rowAt cells c = Some a" unfolding rb cellAt_Cons by simp
    with row(2)[OF this] n'(3) True show ?thesis by simp
  next
    case False
    with that have t: "0 < r" "cellAt (refBoard h' ras') (r - 1) c = Some a"
      unfolding rb cellAt_Cons by (simp_all split: if_splits)
    with ih(2)[OF t(2)] show ?thesis by simp
  qed
  have inj: "injBoard (refBoard h' b')"
    unfolding injBoard_def
  proof (intro allI impI)
    fix r c r' c' a
    assume h: "cellAt (refBoard h' b') r c = Some a \<and> cellAt (refBoard h' b') r' c' = Some a"
    from cell[of r c a] cell[of r' c' a] h
    consider "r = 0" "r' = 0" "rowAt cells c = Some a" "rowAt cells c' = Some a"
      | "0 < r" "0 < r'" "cellAt (refBoard h' ras') (r - 1) c = Some a"
        "cellAt (refBoard h' ras') (r' - 1) c' = Some a"
      by fastforce
    then show "r = r' \<and> c = c'"
    proof cases
      case 1
      with row(1) show ?thesis by simp
    next
      case 2
      with ih(1) have "r - 1 = r' - 1 \<and> c = c'" unfolding injBoard_def by blast
      then show ?thesis by simp
    qed
  qed
  have rng: "length (pieceObjs h) \<le> a \<and> a < length (pieceObjs h')"
    if "cellAt (refBoard h' b') r c = Some a" for r c a
    using cell[OF that] row(2)[of c a] ih(2)[of "r - 1" c a] le by auto
  have "ra' \<notin> set ras'"
  proof
    assume "ra' \<in> set ras'"
    from ih(4)[OF this] n' show False by simp
  qed
  with ih(3) r(2) have dist: "distinct b'" by simp
  have rows: "\<forall>x \<in> set b'. length (rowObjs h) \<le> x \<and> x < length (rowObjs h')"
  proof
    fix x assume "x \<in> set b'"
    with r(2) consider "x = ra'" | "x \<in> set ras'" by auto
    then show "length (rowObjs h) \<le> x \<and> x < length (rowObjs h')"
    proof cases
      case 1
      with n' le cp(2) show ?thesis by simp
    next
      case 2
      from ih(4)[OF this] le show ?thesis by simp
    qed
  qed
  from inj rng dist rows show ?case by blast
qed

lemma hasRow_boardAfterCapture [simp]: "hasRow (boardAfterCapture move b0) r = hasRow b0 r"
  by (simp add: boardAfterCapture_def hasRow_setCell)

lemma hasRow_boardAfterRelocation [simp]: "hasRow (boardAfterRelocation move p0 b1) r = hasRow b1 r"
  by (simp add: boardAfterRelocation_def hasRow_setCell)

lemma executeMove_stages:
  "executeMove move s =
     (case pieceAt s (from move) of
        None \<Rightarrow> Inl NoPieceAtSource
      | Some p0 \<Rightarrow>
          if \<not> hasRow (board s) (row (to move)) then Inl TypeError
          else if isCastling move \<and> \<not> hasRow (board s) (if color p0 = White then 7 else 0)
          then Inl TypeError
          else Inr (stateAfter move s
                 (boardAfterCastling move p0
                    (boardAfterRelocation move p0 (boardAfterCapture move (board s))))
                 (capturedOf move p0 (board s)
                    (boardAfterRelocation move p0 (boardAfterCapture move (board s))))))"
proof (cases "pieceAt s (from move)")
  case None
  then show ?thesis by (simp add: executeMove_def)
next
  case (Some p0)
  show ?thesis
    by (simp add: executeMove_def Some Let_def stateAfter_def boardAfterCastling_def
        castlingRook_def capturedOf_def boardAfterRelocation_def movedPiece_def
        boardAfterCapture_def hasRow_setCell)
qed

lemma executeMoveH_stages:
  "executeMoveH move s h =
     (let (newBoard, h0) = copyRows h (rboard s) in
      case refAt h0 newBoard (row (rfrom move)) (col (rfrom move)) of
        None \<Rightarrow> Inl NoPieceAtSource
      | Some pa \<Rightarrow>
          if \<not> hasRow newBoard (row (rto move)) then Inl TypeError
          else
            let h4 = relocatePiece move newBoard pa (removeEnPassantPawn move newBoard h0);
                backRank = (if color (pieceObjs h4 ! pa) = White then 7 else 0)
            in if risCastling move \<and> \<not> hasRow newBoard backRank then Inl TypeError
               else
                 let h6 = promotePiece move pa (relocateRook move newBoard backRank h4)
                 in Inr (stateAfterH move s newBoard
                           (if risEnPassant move
                            then refAt h0 newBoard (row (rfrom move)) (col (rto move))
                            else refAt h0 newBoard (row (rto move)) (col (rto move)))
                           h6, h6))"
  unfolding executeMoveH_def stateAfterH_def hasRow_def Let_def
  by (simp split: prod.splits option.splits)

text \<open>The four groups of assignments of \<open>executeMoveH\<close>, as updates of the board of addresses
  and of the list of piece objects.\<close>

lemma hasRow_refBoard [simp]: "hasRow (refBoard h b) r = hasRow b r"
  by (simp add: hasRow_def refBoard_def)

lemma cellAt_Some_hasRow: "cellAt rb r c = Some a \<Longrightarrow> hasRow rb r"
  by (auto simp: cellAt_def hasRow_def split: if_splits)

lemma rowObjs_lengths_stages [simp]:
  "length (rowObjs (removeEnPassantPawn move b h)) = length (rowObjs h)"
  "length (rowObjs (relocatePiece move b pa h)) = length (rowObjs h)"
  "length (rowObjs (relocateRook move b br h)) = length (rowObjs h)"
  "length (rowObjs (promotePiece move pa h)) = length (rowObjs h)"
  by (simp_all add: removeEnPassantPawn_def relocatePiece_def relocateRook_def promotePiece_def
      Let_def split: option.splits)

lemma removeEnPassantPawn_refs:
  assumes "distinct b" and "\<forall>ra \<in> set b. ra < length (rowObjs h)"
  shows "refBoard (removeEnPassantPawn move b h) b =
           (if risEnPassant move \<and> cellAt (refBoard h b) (row (rfrom move)) (col (rto move)) \<noteq> None
            then setCell (refBoard h b) (row (rfrom move)) (col (rto move)) None
            else refBoard h b)"
    and "pieceObjs (removeEnPassantPawn move b h) = pieceObjs h"
proof -
  show "pieceObjs (removeEnPassantPawn move b h) = pieceObjs h"
    by (simp add: removeEnPassantPawn_def)
  show "refBoard (removeEnPassantPawn move b h) b =
           (if risEnPassant move \<and> cellAt (refBoard h b) (row (rfrom move)) (col (rto move)) \<noteq> None
            then setCell (refBoard h b) (row (rfrom move)) (col (rto move)) None
            else refBoard h b)"
  proof (cases "risEnPassant move \<and> cellAt (refBoard h b) (row (rfrom move)) (col (rto move)) \<noteq> None")
    case True
    then obtain a where "cellAt (refBoard h b) (row (rfrom move)) (col (rto move)) = Some a"
      by auto
    from cellAt_Some_hasRow[OF this] have "hasRow b (row (rfrom move))" by simp
    from refBoard_setRef[OF assms(1) this assms(2)] True show ?thesis
      by (simp add: removeEnPassantPawn_def refAt_refBoard)
  next
    case False
    then show ?thesis by (auto simp: removeEnPassantPawn_def refAt_refBoard)
  qed
qed

lemma relocatePiece_refs:
  assumes "distinct b" and "\<forall>ra \<in> set b. ra < length (rowObjs h)"
    and "hasRow b (row (rto move))" and "hasRow b (row (rfrom move))"
  shows "refBoard (relocatePiece move b pa h) b =
           setCell (setCell (refBoard h b) (row (rto move)) (col (rto move)) (Some pa))
             (row (rfrom move)) (col (rfrom move)) None"
    and "pieceObjs (relocatePiece move b pa h) =
           (pieceObjs h)[pa := (pieceObjs h ! pa)\<lparr>position := rto move, hasMoved := True\<rparr>]"
proof -
  let ?h2 = "setRef h b (row (rto move)) (col (rto move)) (Some pa)"
  have 2: "refBoard ?h2 b = setCell (refBoard h b) (row (rto move)) (col (rto move)) (Some pa)"
    by (rule refBoard_setRef[OF assms(1) assms(3) assms(2)])
  have rows2: "\<forall>ra \<in> set b. ra < length (rowObjs ?h2)" using assms(2) by simp
  have 3: "refBoard (setRef ?h2 b (row (rfrom move)) (col (rfrom move)) None) b =
           setCell (refBoard ?h2 b) (row (rfrom move)) (col (rfrom move)) None"
    by (rule refBoard_setRef[OF assms(1) assms(4) rows2])
  show "refBoard (relocatePiece move b pa h) b =
           setCell (setCell (refBoard h b) (row (rto move)) (col (rto move)) (Some pa))
             (row (rfrom move)) (col (rfrom move)) None"
    by (simp add: relocatePiece_def Let_def 3 2)
  show "pieceObjs (relocatePiece move b pa h) =
           (pieceObjs h)[pa := (pieceObjs h ! pa)\<lparr>position := rto move, hasMoved := True\<rparr>]"
    by (simp add: relocatePiece_def Let_def pieceObjs_updPiece)
qed

lemma relocateRook_None:
  assumes "(if risCastling move
            then cellAt (refBoard h b) br (if col (rto move) = 6 then 7 else 0) else None) = None"
  shows "relocateRook move b br h = h"
  using assms by (auto simp: relocateRook_def Let_def refAt_refBoard split: if_splits)

lemma relocateRook_refs:
  assumes "distinct b" and "\<forall>ra \<in> set b. ra < length (rowObjs h)"
    and rook: "(if risCastling move
            then cellAt (refBoard h b) br (if col (rto move) = 6 then 7 else 0) else None) = Some ra"
  shows "refBoard (relocateRook move b br h) b =
           setCell (setCell (refBoard h b) br (if col (rto move) = 6 then 5 else 3) (Some ra))
             br (if col (rto move) = 6 then 7 else 0) None"
    and "pieceObjs (relocateRook move b br h) =
           (pieceObjs h)[ra := (pieceObjs h ! ra)
              \<lparr>position := \<lparr>row = br, col = (if col (rto move) = 6 then 5 else 3)\<rparr>,
               hasMoved := True\<rparr>]"
proof -
  from rook have cell: "cellAt (refBoard h b) br (if col (rto move) = 6 then 7 else 0) = Some ra"
    by (simp split: if_splits)
  from cellAt_Some_hasRow[OF cell] have hr: "hasRow b br" by simp
  let ?d = "if col (rto move) = 6 then 5 else 3 :: int"
  let ?c = "if col (rto move) = 6 then 7 else 0 :: int"
  let ?h1 = "setRef h b br ?d (Some ra)"
  have 1: "refBoard ?h1 b = setCell (refBoard h b) br ?d (Some ra)"
    by (rule refBoard_setRef[OF assms(1) hr assms(2)])
  have rows1: "\<forall>ra \<in> set b. ra < length (rowObjs ?h1)" using assms(2) by simp
  have 2: "refBoard (setRef ?h1 b br ?c None) b = setCell (refBoard ?h1 b) br ?c None"
    by (rule refBoard_setRef[OF assms(1) hr rows1])
  have def: "relocateRook move b br h =
             updPiece (setRef ?h1 b br ?c None) ra
               (\<lambda>p. p\<lparr>position := \<lparr>row = br, col = ?d\<rparr>, hasMoved := True\<rparr>)"
    using rook unfolding relocateRook_def Let_def refAt_refBoard by simp
  show "refBoard (relocateRook move b br h) b =
           setCell (setCell (refBoard h b) br ?d (Some ra)) br ?c None"
    unfolding def by (simp only: refBoard_updPiece 2 1)
  show "pieceObjs (relocateRook move b br h) =
           (pieceObjs h)[ra := (pieceObjs h ! ra)\<lparr>position := \<lparr>row = br, col = ?d\<rparr>,
               hasMoved := True\<rparr>]"
    unfolding def by (simp add: pieceObjs_updPiece)
qed

lemma promotePiece_refs:
  "refBoard (promotePiece move pa h) b = refBoard h b"
  "pieceObjs (promotePiece move pa h) =
     (case rpromotionType move of
        None \<Rightarrow> pieceObjs h
      | Some pt \<Rightarrow> (pieceObjs h)[pa := (pieceObjs h ! pa)\<lparr>type := promotedType pt\<rparr>])"
  by (simp_all add: promotePiece_def pieceObjs_updPiece split: option.splits)

text \<open>The new state of \<open>executeMoveH\<close> stands for the new state of \<open>executeMove\<close>, given the
  board and the captured piece.\<close>

lemma absState_flags [simp]:
  "absState h (s\<lparr>risCheckFlag := x\<rparr>) = (absState h s)\<lparr>isCheckFlag := x\<rparr>"
  "absState h (s\<lparr>risCheckmateFlag := x\<rparr>) = (absState h s)\<lparr>isCheckmateFlag := x\<rparr>"
  "absState h (s\<lparr>risStalemateFlag := x\<rparr>) = (absState h s)\<lparr>isStalemateFlag := x\<rparr>"
  by (simp_all add: absState_def)

lemma absState_stateAfterH:
  assumes ext: "extends h h6" and wf: "wfState h s" and wfm: "wfMove h move"
  shows "absState h6 (stateAfterH move s nb c h6) =
         stateAfter (absMove h move) (absState h s) (absBoard h6 nb)
           (map_option (\<lambda>a. pieceObjs h6 ! a) c)"
proof -
  have mh: "map (absMove h6) (rmoveHistory s) = map (absMove h) (rmoveHistory s)"
    using absMove_extends[OF ext] wf by (auto simp: wfState_def list_all_iff)
  have cp: "map (\<lambda>a. pieceObjs h6 ! a) (rcapturedPieces s) =
            map (\<lambda>a. pieceObjs h ! a) (rcapturedPieces s)"
    using extends_nth(1)[OF ext] wf by (auto simp: wfState_def list_all_iff)
  have pc: "pieceObjs h6 ! rpiece move = pieceObjs h ! rpiece move"
    using extends_nth(1)[OF ext] wfm by (simp add: wfMove_def)
  have em: "absMove h6 (move\<lparr>rcapturedPiece := c\<rparr>) =
            (absMove h move)\<lparr>capturedPiece := map_option (\<lambda>a. pieceObjs h6 ! a) c\<rparr>"
    by (simp add: absMove_def pc)
  define newState where "newState =
     \<lparr>rboard = nb, rcurrentTurn = (if rcurrentTurn s = White then Black else White),
      rmoveHistory = rmoveHistory s @ [move\<lparr>rcapturedPiece := c\<rparr>],
      rcapturedPieces = rcapturedPieces s @ (case c of None \<Rightarrow> [] | Some a \<Rightarrow> [a]),
      risCheckFlag = False, risCheckmateFlag = False, risStalemateFlag = False,
      rmoveCount = rmoveCount s + 1, rlastMove = Some (move\<lparr>rcapturedPiece := c\<rparr>),
      risAIThinking = None, rstatus = None, rwinner = None\<rparr>"
  have ns: "absState h6 newState =
     \<lparr>board = absBoard h6 nb,
      currentTurn = (if currentTurn (absState h s) = White then Black else White),
      moveHistory = moveHistory (absState h s) @
        [(absMove h move)\<lparr>capturedPiece := map_option (\<lambda>a. pieceObjs h6 ! a) c\<rparr>],
      capturedPieces = capturedPieces (absState h s) @
        (case map_option (\<lambda>a. pieceObjs h6 ! a) c of None \<Rightarrow> [] | Some cp \<Rightarrow> [cp]),
      isCheckFlag = False, isCheckmateFlag = False, isStalemateFlag = False,
      moveCount = moveCount (absState h s) + 1,
      lastMove = Some ((absMove h move)\<lparr>capturedPiece := map_option (\<lambda>a. pieceObjs h6 ! a) c\<rparr>),
      isAIThinking = None, status = None, winner = None\<rparr>"
    unfolding newState_def using em by (cases c) (simp_all add: absState_def mh cp)
  have turn: "rcurrentTurn s = currentTurn (absState h s)" by (simp add: absState_def)
  show ?thesis
    unfolding stateAfterH_def stateAfter_def Let_def newState_def[symmetric]
    by (simp add: ns turn)
qed

text \<open>The two models agree. For a state of addresses that is well formed in the store, and a
  move whose addresses name objects of the store, \<open>executeMoveH\<close> fails exactly where
  \<open>executeMove\<close> fails on the state and the move that they stand for, with the same error; and
  where it returns, the state that it returns stands, in the store that it returns, for the
  state that \<open>executeMove\<close> returns. The cases in which the objects are shared are those that
  the model of values writes out: the moving piece is also the captured piece, or the rook.\<close>

lemma executeMoveH_agrees:
  assumes wf: "wfState h s" and wfm: "wfMove h move"
  shows "(case executeMoveH move s h of
            Inl e \<Rightarrow> Inl e
          | Inr (s', h') \<Rightarrow> Inr (absState h' s')) =
         executeMove (absMove h move) (absState h s)"
proof -
  let ?fr = "rfrom move" and ?t = "rto move"
  obtain nb h0 where cp: "copyRows h (rboard s) = (nb, h0)" by (cases "copyRows h (rboard s)")
  define m where "m = absMove h move"
  have m: "from m = ?fr" "to m = ?t" "isEnPassant m = risEnPassant move"
    "isCastling m = risCastling move" "promotionType m = rpromotionType move"
    by (simp_all add: m_def absMove_def)
  define RB0 where "RB0 = refBoard h0 nb"
  define P0 where "P0 = pieceObjs h0"
  have rows: "\<forall>ra \<in> set (rboard s). ra < length (rowObjs h) \<and> wfCells h (rowObjs h ! ra)"
    using wfState_rows[OF wf] by blast
  have B0: "board (absState h s) = derefBoard P0 RB0"
    using copyRows_abs[OF cp rows]
    by (simp add: absState_def absBoard_derefBoard RB0_def P0_def)
  note ci = copyRows_inj[OF cp, folded RB0_def P0_def]
  from ci have inj0: "injBoard RB0" by simp
  from ci have fresh0: "length (pieceObjs h) \<le> a \<and> a < length P0"
    if "cellAt RB0 r c = Some a" for r c a using that by blast
  from ci have dist: "distinct nb" by simp
  from ci have rng0: "\<forall>ra \<in> set nb. ra < length (rowObjs h0)" by simp
  have hr0: "hasRow RB0 r = hasRow nb r" for r by (simp add: RB0_def)
  have src: "pieceAt (absState h s) ?fr =
             map_option (\<lambda>a. P0 ! a) (cellAt RB0 (row ?fr) (col ?fr))"
    by (simp add: pieceAt_def B0 cellAt_derefBoard)
  show ?thesis
  proof (cases "cellAt RB0 (row ?fr) (col ?fr)")
    case None
    have "executeMoveH move s h = Inl NoPieceAtSource"
      using None by (simp add: executeMoveH_stages cp refAt_refBoard RB0_def)
    moreover have "executeMove m (absState h s) = Inl NoPieceAtSource"
      using None src by (simp add: executeMove_stages m)
    ultimately show ?thesis by (simp add: m_def)
  next
    case (Some pa)
    define p0 where "p0 = P0 ! pa"
    have pa: "length (pieceObjs h) \<le> pa" "pa < length P0" using fresh0[OF Some] by simp_all
    have srcP: "pieceAt (absState h s) ?fr = Some p0"
      using src Some by (simp add: p0_def)
    have srcH: "refAt h0 nb (row ?fr) (col ?fr) = Some pa"
      using Some by (simp add: refAt_refBoard RB0_def)
    have hfr: "hasRow nb (row ?fr)" using cellAt_Some_hasRow[OF Some] hr0 by simp
    show ?thesis
    proof (cases "hasRow nb (row ?t)")
      case False
      have "executeMoveH move s h = Inl TypeError"
        using False by (simp add: executeMoveH_stages cp srcH)
      moreover have "executeMove m (absState h s) = Inl TypeError"
        using False by (simp add: executeMove_stages srcP m B0 hr0)
      ultimately show ?thesis by (simp add: m_def)
    next
      case ht: True
      define h1 where "h1 = removeEnPassantPawn move nb h0"
      define RB1 where "RB1 = refBoard h1 nb"
      have RB1: "RB1 = (if risEnPassant move \<and> cellAt RB0 (row ?fr) (col ?t) \<noteq> None
                        then setCell RB0 (row ?fr) (col ?t) None else RB0)"
        unfolding RB1_def h1_def RB0_def by (rule removeEnPassantPawn_refs(1)[OF dist rng0])
      have P1: "pieceObjs h1 = P0"
        unfolding h1_def P0_def by (rule removeEnPassantPawn_refs(2)[OF dist rng0])
      have rng1: "\<forall>ra \<in> set nb. ra < length (rowObjs h1)" using rng0 by (simp add: h1_def)
      have hr1: "hasRow RB1 r = hasRow nb r" for r by (simp add: RB1_def)
      have hfr0: "hasRow RB0 (row ?fr)" using hfr hr0 by simp
      have sub1: "cellAt RB0 r c = Some a" if "cellAt RB1 r c = Some a" for r c a
        using that unfolding RB1 by (auto simp: cellAt_setCell[OF hfr0] split: if_splits)
      have inj1: "injBoard RB1"
        unfolding RB1 using inj0 clear_inj[OF inj0 hfr0, of "col ?t"] by simp
      have occ1: "r = row ?fr \<and> c = col ?fr" if "cellAt RB1 r c = Some pa" for r c
        using sub1[OF that] inj0 Some unfolding injBoard_def by blast
      have b1: "boardAfterCapture m (derefBoard P0 RB0) = derefBoard P0 RB1"
        unfolding RB1 by (auto simp: boardAfterCapture_def m cellAt_derefBoard derefBoard_setCell)
      define h4 where "h4 = relocatePiece move nb pa h1"
      define RB3 where "RB3 = refBoard h4 nb"
      have RB3: "RB3 = setCell (setCell RB1 (row ?t) (col ?t) (Some pa)) (row ?fr) (col ?fr) None"
        unfolding RB3_def h4_def RB1_def
        by (rule relocatePiece_refs(1)[OF dist rng1 ht hfr])
      have P4: "pieceObjs h4 = P0[pa := p0\<lparr>position := ?t, hasMoved := True\<rparr>]"
        unfolding h4_def p0_def P1[symmetric]
        by (rule relocatePiece_refs(2)[OF dist rng1 ht hfr])
      have rng4: "\<forall>ra \<in> set nb. ra < length (rowObjs h4)" using rng1 by (simp add: h4_def)
      have hfr1: "hasRow RB1 (row ?fr)" and ht1: "hasRow RB1 (row ?t)"
        using hfr ht hr1 by simp_all
      have hr3: "hasRow RB3 r = hasRow nb r" for r by (simp add: RB3_def)
      define D3 where "D3 = P0[pa := movedPiece m p0]"
      have b3: "boardAfterRelocation m p0 (derefBoard P0 RB1) = derefBoard D3 RB3"
        unfolding RB3 D3_def boardAfterRelocation_def m
        by (rule relocate_deref[symmetric, OF occ1 hfr1 ht1 pa(2)])
      have inj3: "injBoard RB3" unfolding RB3 by (rule relocate_inj[OF inj1 occ1 hfr1 ht1])
      have occ3: "r = row ?t \<and> c = col ?t \<and> 0 \<le> col ?t" if "cellAt RB3 r c = Some pa" for r c
        using relocate_occ[OF occ1 hfr1 ht1 that[unfolded RB3]] .
      have sub3: "cellAt RB1 r c = Some a" if "cellAt RB3 r c = Some a" "a \<noteq> pa" for r c a
        using relocate_other[OF hfr1 ht1 that(1)[unfolded RB3] that(2)] .
      have cells3: "cellAt RB3 r c =
                      (if r = row ?fr \<and> c = col ?fr \<and> 0 \<le> col ?fr then None
                       else if r = row ?t \<and> c = col ?t \<and> 0 \<le> col ?t then Some pa
                       else cellAt RB1 r c)" for r c
        unfolding RB3 by (rule relocate_cells[OF hfr1 ht1])
      have col4: "color (pieceObjs h4 ! pa) = color p0" using pa by (simp add: P4)
      define br :: int where "br = (if color p0 = White then 7 else 0)"
      define cap where "cap = (if risEnPassant move then refAt h0 nb (row ?fr) (col ?t)
                               else refAt h0 nb (row ?t) (col ?t))"
      have capR: "cap = (if risEnPassant move then cellAt RB0 (row ?fr) (col ?t)
                         else cellAt RB0 (row ?t) (col ?t))"
        by (simp add: cap_def refAt_refBoard RB0_def)
      define h6 where "h6 = promotePiece move pa (relocateRook move nb br h4)"
      have exH: "executeMoveH move s h =
                   (if risCastling move \<and> \<not> hasRow nb br then Inl TypeError
                    else Inr (stateAfterH move s nb cap h6, h6))"
        unfolding executeMoveH_stages cp prod.case srcH option.case Let_def h1_def[symmetric]
          h4_def[symmetric] col4 br_def[symmetric] h6_def[symmetric] cap_def[symmetric]
        using ht by simp
      have exP: "executeMove m (absState h s) =
                   (if risCastling move \<and> \<not> hasRow nb br then Inl TypeError
                    else Inr (stateAfter m (absState h s)
                           (boardAfterCastling m p0 (derefBoard D3 RB3))
                           (capturedOf m p0 (derefBoard P0 RB0) (derefBoard D3 RB3))))"
        using ht
        by (simp add: executeMove_stages srcP B0 b1 b3 hr0 m br_def[symmetric])
      show ?thesis
      proof (cases "risCastling move \<and> \<not> hasRow nb br")
        case True
        with exH exP show ?thesis by (simp add: m_def)
      next
        case ok: False
        from ok exH have exH': "executeMoveH move s h = Inr (stateAfterH move s nb cap h6, h6)"
          by simp
        have ext6: "extends h h6" using executeMoveH_extends[OF exH'] .
        define rc :: int where "rc = (if col ?t = 6 then 7 else 0)"
        define rd :: int where "rd = (if col ?t = 6 then 5 else 3)"
        define rookRef where "rookRef = (if risCastling move then cellAt RB3 br rc else None)"
        define g where "g = (\<lambda>p::Piece. p\<lparr>position := \<lparr>row = br, col = rd\<rparr>, hasMoved := True\<rparr>)"
        define pr where "pr = (\<lambda>p::Piece. case rpromotionType move of
                                 None \<Rightarrow> p | Some pt \<Rightarrow> p\<lparr>type := promotedType pt\<rparr>)"
        define rookIsMover where "rookIsMover \<longleftrightarrow>
            risCastling move \<and> col ?t \<noteq> 6 \<and> row ?t = br \<and> col ?t = 0 \<and> \<not> positionsEqual ?fr ?t"
        define moverCaptured where "moverCaptured \<longleftrightarrow>
            (if risEnPassant move then col ?t = col ?fr else positionsEqual ?t ?fr)"
        have cr: "castlingRook m p0 (derefBoard D3 RB3) = map_option (\<lambda>a. g (D3 ! a)) rookRef"
          by (simp add: castlingRook_def m cellAt_derefBoard rookRef_def g_def br_def rc_def
              rd_def option.map_comp comp_def)
        have moved: "movedPiece m p0 = pr (p0\<lparr>position := ?t, hasMoved := True\<rparr>)"
          by (simp add: movedPiece_def m pr_def split: option.splits)
        have gpr: "g (pr p) = pr (g p)" for p
          by (simp add: g_def pr_def split: option.splits)
        define h5 where "h5 = relocateRook move nb br h4"
        have P6: "pieceObjs h6 = (pieceObjs h5)[pa := pr (pieceObjs h5 ! pa)]"
          by (simp add: h6_def h5_def[symmetric] promotePiece_refs pr_def split: option.splits)
        have RB6: "refBoard h6 nb = refBoard h5 nb"
          by (simp add: h6_def h5_def[symmetric] promotePiece_refs)
        have capP: "capturedOf m p0 (derefBoard P0 RB0) (derefBoard D3 RB3) =
                      (if moverCaptured
                       then (if rookIsMover then map_option (\<lambda>a. g (D3 ! a)) rookRef
                             else Some (movedPiece m p0))
                       else map_option (\<lambda>a. P0 ! a) cap)"
          unfolding capturedOf_def Let_def m cr
          unfolding br_def[symmetric]
          unfolding rookIsMover_def[symmetric] moverCaptured_def[symmetric] cellAt_derefBoard
          by (simp add: capR)
        have rook_iff: "rookRef = Some pa \<longleftrightarrow> rookIsMover"
        proof
          assume "rookRef = Some pa"
          then have c: "risCastling move" "cellAt RB3 br rc = Some pa"
            by (simp_all add: rookRef_def split: if_splits)
          from occ3[OF c(2)] have e: "br = row ?t" "rc = col ?t" "0 \<le> col ?t" by simp_all
          from e(2) have "col ?t \<noteq> 6 \<and> col ?t = 0" by (simp add: rc_def split: if_splits)
          moreover have "\<not> positionsEqual ?fr ?t"
            using c(2) e unfolding cells3 positionsEqual_def by (auto split: if_splits)
          ultimately show rookIsMover using c(1) e(1) by (simp add: rookIsMover_def)
        next
          assume rookIsMover
          then have r: "risCastling move" "rc = 0" "row ?t = br" "col ?t = 0"
            "\<not> positionsEqual ?fr ?t"
            by (simp_all add: rookIsMover_def rc_def)
          have "cellAt RB3 (row ?t) (col ?t) = Some pa"
            using r(4,5) unfolding cells3 positionsEqual_def by auto
          with r show "rookRef = Some pa" by (simp add: rookRef_def)
        qed
        have mover_iff: "cap = Some pa \<longleftrightarrow> moverCaptured"
        proof (cases "risEnPassant move")
          case True
          have "cellAt RB0 (row ?fr) (col ?t) = Some pa \<longleftrightarrow> col ?t = col ?fr"
            using inj0 Some unfolding injBoard_def by metis
          with True show ?thesis by (simp add: capR moverCaptured_def)
        next
          case False
          have "cellAt RB0 (row ?t) (col ?t) = Some pa \<longleftrightarrow> row ?t = row ?fr \<and> col ?t = col ?fr"
            using inj0 Some unfolding injBoard_def by metis
          with False show ?thesis by (simp add: capR moverCaptured_def positionsEqual_def)
        qed
        show ?thesis
        proof (cases rookRef)
          case None
          then have h5: "h5 = h4"
            unfolding h5_def rookRef_def rc_def RB3_def by (rule relocateRook_None)
          have Pf: "pieceObjs h6 = D3"
            using pa by (simp add: P6 h5 P4 D3_def moved)
          have bd: "absBoard h6 nb = boardAfterCastling m p0 (derefBoard D3 RB3)"
            by (simp add: absBoard_derefBoard RB6 h5 Pf RB3_def[symmetric]
                boardAfterCastling_def cr None)
          from None rook_iff have nrm: "\<not> rookIsMover" by simp
          have cp': "map_option (\<lambda>a. pieceObjs h6 ! a) cap =
                     capturedOf m p0 (derefBoard P0 RB0) (derefBoard D3 RB3)"
          proof (cases "cap = Some pa")
            case True
            with mover_iff have mc: moverCaptured by simp
            have "capturedOf m p0 (derefBoard P0 RB0) (derefBoard D3 RB3) = Some (movedPiece m p0)"
              using mc nrm by (simp add: capP)
            with True pa show ?thesis by (simp add: Pf D3_def)
          next
            case False
            with mover_iff have mc: "\<not> moverCaptured" by simp
            have "capturedOf m p0 (derefBoard P0 RB0) (derefBoard D3 RB3) =
                  map_option (\<lambda>a. P0 ! a) cap"
              using mc by (simp add: capP)
            moreover have "map_option (\<lambda>a. pieceObjs h6 ! a) cap = map_option (\<lambda>a. P0 ! a) cap"
              using False by (cases cap) (simp_all add: Pf D3_def)
            ultimately show ?thesis by simp
          qed
          from absState_stateAfterH[OF ext6 wf wfm, of nb cap] exH' exP ok
          show ?thesis by (simp add: bd cp' m_def)
        next
          case (Some ra)
          then have rk: "risCastling move" "cellAt RB3 br rc = Some ra"
            by (simp_all add: rookRef_def split: if_splits)
          have rook': "(if risCastling move
                        then cellAt (refBoard h4 nb) br (if col ?t = 6 then 7 else 0)
                        else None) = Some ra"
            using rk by (simp add: rc_def RB3_def)
          have RB5: "refBoard h5 nb = setCell (setCell RB3 br rd (Some ra)) br rc None"
            unfolding h5_def RB3_def rd_def rc_def
            by (rule relocateRook_refs(1)[OF dist rng4 rook'])
          have P5: "pieceObjs h5 = (pieceObjs h4)[ra := g (pieceObjs h4 ! ra)]"
            unfolding h5_def g_def rd_def
            by (rule relocateRook_refs(2)[OF dist rng4 rook'])
          have ra: "ra < length P0"
          proof (cases "ra = pa")
            case True
            with pa show ?thesis by simp
          next
            case False
            from fresh0[OF sub1[OF sub3[OF rk(2) False]]] show ?thesis by simp
          qed
          define Df where "Df = D3[ra := g (D3 ! ra)]"
          have Pf: "pieceObjs h6 = Df"
          proof (cases "ra = pa")
            case True
            with pa show ?thesis by (simp add: P6 P5 P4 Df_def D3_def moved gpr)
          next
            case False
            with pa ra show ?thesis
              by (simp add: P6 P5 P4 Df_def D3_def moved list_update_swap[of pa ra])
          qed
          have occR: "r = br \<and> c = rc" if "cellAt RB3 r c = Some ra" for r c
            using inj3 rk(2) that unfolding injBoard_def by blast
          have hbr: "hasRow RB3 br" using cellAt_Some_hasRow[OF rk(2)] .
          have raD: "ra < length D3" using ra by (simp add: D3_def)
          have "derefBoard Df (setCell (setCell RB3 br rd (Some ra)) br rc None) =
                setCell (setCell (derefBoard D3 RB3) br rd (Some (g (D3 ! ra)))) br rc None"
            unfolding Df_def by (rule relocate_deref[OF occR hbr hbr raD])
          then have bd: "absBoard h6 nb = boardAfterCastling m p0 (derefBoard D3 RB3)"
            by (simp add: absBoard_derefBoard RB6 RB5 Pf boardAfterCastling_def cr Some m
                br_def rc_def rd_def)
          have capRook: "cap \<noteq> Some ra" if ne: "ra \<noteq> pa"
          proof
            assume c: "cap = Some ra"
            have r0: "cellAt RB0 br rc = Some ra" using sub1[OF sub3[OF rk(2) ne]] .
            have r1: "cellAt RB1 br rc = Some ra" using sub3[OF rk(2) ne] .
            show False
            proof (cases "risEnPassant move")
              case True
              with c have e: "cellAt RB0 (row ?fr) (col ?t) = Some ra" by (simp add: capR)
              with r0 inj0 have "br = row ?fr \<and> rc = col ?t" unfolding injBoard_def by blast
              moreover from True e
              have "RB1 = setCell RB0 (row ?fr) (col ?t) None" by (simp add: RB1)
              moreover note cellAt_Some_nonneg[OF e]
              ultimately show False using r1 by (simp add: cellAt_setCell[OF hfr0])
            next
              case False
              with c have e: "cellAt RB0 (row ?t) (col ?t) = Some ra" by (simp add: capR)
              with r0 inj0 have "br = row ?t \<and> rc = col ?t" unfolding injBoard_def by blast
              with rk(2) cellAt_Some_nonneg[OF e] ne show False
                unfolding cells3 by (auto split: if_splits)
            qed
          qed
          have cp': "map_option (\<lambda>a. pieceObjs h6 ! a) cap =
                     capturedOf m p0 (derefBoard P0 RB0) (derefBoard D3 RB3)"
          proof (cases "cap = Some pa")
            case True
            with mover_iff have mc: moverCaptured by simp
            show ?thesis
            proof (cases "ra = pa")
              case rp: True
              with Some rook_iff have rm: rookIsMover by simp
              have "capturedOf m p0 (derefBoard P0 RB0) (derefBoard D3 RB3) = Some (g (D3 ! ra))"
                using mc rm by (simp add: capP Some)
              with True rp raD show ?thesis by (simp add: Pf Df_def)
            next
              case rp: False
              with Some rook_iff have rm: "\<not> rookIsMover" by auto
              have "capturedOf m p0 (derefBoard P0 RB0) (derefBoard D3 RB3) =
                    Some (movedPiece m p0)"
                using mc rm by (simp add: capP)
              with True rp pa show ?thesis by (simp add: Pf Df_def D3_def)
            qed
          next
            case False
            with mover_iff have mc: "\<not> moverCaptured" by simp
            have "capturedOf m p0 (derefBoard P0 RB0) (derefBoard D3 RB3) =
                  map_option (\<lambda>a. P0 ! a) cap"
              using mc by (simp add: capP)
            moreover have "map_option (\<lambda>a. pieceObjs h6 ! a) cap = map_option (\<lambda>a. P0 ! a) cap"
            proof (cases cap)
              case None
              then show ?thesis by simp
            next
              case (Some a)
              with False have "a \<noteq> pa" by simp
              moreover from Some capRook have "a \<noteq> ra" by (cases "ra = pa") (use \<open>a \<noteq> pa\<close> in auto)
              ultimately show ?thesis using Some by (simp add: Pf Df_def D3_def)
            qed
            ultimately show ?thesis by simp
          qed
          from absState_stateAfterH[OF ext6 wf wfm, of nb cap] exH' exP ok
          show ?thesis by (simp add: bd cp' m_def)
        qed
      qed
    qed
  qed
qed

end
